theory Spec2Isabelle
  imports Complex_Main "HOL-Library.Word"
begin

unbundle bit_operations_syntax

section \<open>Bytes, text and errors\<close>

text \<open>
  A Python \<^verbatim>\<open>bytes\<close> value is a list of 8-bit words. A Python \<^verbatim>\<open>str\<close> is
  represented by the sequence of bytes of its UTF-8 encoding, one \<^typ>\<open>char\<close> per byte, so
  that \<^verbatim>\<open>s.encode('utf-8')\<close> reads the characters as bytes and \<open>length\<close> of the result
  is the UTF-8 byte length (the only length the encoders look at).
\<close>

type_synonym byte = "8 word"
type_synonym bytes = "byte list"

text \<open>
  The exceptions of the code as values. \<open>StructError\<close> is \<^verbatim>\<open>struct.error\<close> with what it
  complains about; \<open>PayloadTooLarge size limit\<close> is the ValueError of \<^verbatim>\<open>serialize\<close>, whose
  message carries the encoded length and \<^verbatim>\<open>MAX_PAYLOAD_SIZE\<close>; \<open>MissingFields\<close> is the
  ValueError of \<^verbatim>\<open>validate_fields\<close>.
\<close>

datatype struct_error = WrongCount | NotAnInteger | NotAFloat | UByteRange | UShortRange

datatype error =
    KeyError string
  | ValueError
  | TypeError
  | StructError struct_error
  | OverflowError
  | PayloadTooLarge nat nat
  | MissingFields "string list"
  | ZeroDivisionError

definition encode_utf8 :: "string \<Rightarrow> bytes" where
  "encode_utf8 s = map (\<lambda>c. word_of_nat (of_char c)) s"

definition decode_utf8 :: "bytes \<Rightarrow> string" where
  "decode_utf8 bs = map (\<lambda>b. char_of (unat b)) bs"

text \<open>\<^verbatim>\<open>bytes([x1, ..., xn])\<close>: every item must be in \<open>range(256)\<close>, else ValueError.\<close>

definition py_bytes :: "int list \<Rightarrow> error + bytes" where
  "py_bytes xs =
     (if list_all (\<lambda>x. 0 \<le> x \<and> x < 256) xs then Inr (map word_of_int xs) else Inl ValueError)"

section \<open>Text: whitespace, \<^verbatim>\<open>split\<close>, \<^verbatim>\<open>int\<close> and \<^verbatim>\<open>float\<close>\<close>

text \<open>
  The built-ins the services call on field values, on ASCII text (characters outside
  ASCII are neither whitespace nor digits here). \<^verbatim>\<open>str.split()\<close> cuts at runs of
  whitespace and drops empty pieces. \<^verbatim>\<open>int(s)\<close> strips whitespace and reads an optional
  sign and decimal digits, single underscores allowed between digits. \<^verbatim>\<open>float(s)\<close> strips
  whitespace and reads an optional sign, then \<^verbatim>\<open>inf\<close>, \<^verbatim>\<open>infinity\<close> or \<^verbatim>\<open>nan\<close> in any case,
  or a decimal number with an optional exponent. \<open>None\<close> stands for ValueError.
  A float is kept as the sign and the magnitude its literal denotes; the rounding to
  binary64 is not modelled, the code does no arithmetic on these values.
\<close>

definition is_space :: "char \<Rightarrow> bool" where
  "is_space c = (of_char c \<in> {0x09, 0x0a, 0x0b, 0x0c, 0x0d, 0x1c, 0x1d, 0x1e, 0x1f, 0x20 :: nat})"

definition is_digit :: "char \<Rightarrow> bool" where
  "is_digit c = (0x30 \<le> (of_char c :: nat) \<and> (of_char c :: nat) \<le> 0x39)"

definition digit_val :: "char \<Rightarrow> nat" where
  "digit_val c = of_char c - 0x30"

definition py_strip :: "string \<Rightarrow> string" where
  "py_strip s = rev (dropWhile is_space (rev (dropWhile is_space s)))"

fun split_from :: "string \<Rightarrow> string \<Rightarrow> string list" where
  "split_from word [] = (if word = [] then [] else [word])"
| "split_from word (c # cs) =
     (if is_space c then (if word = [] then split_from [] cs else word # split_from [] cs)
      else split_from (word @ [c]) cs)"

definition py_split :: "string \<Rightarrow> string list" where
  "py_split s = split_from [] s"

fun more_digits :: "nat \<times> nat \<Rightarrow> string \<Rightarrow> (nat \<times> nat) option" where
  "more_digits (v, n) [] = Some (v, n)"
| "more_digits (v, n) (c # cs) =
     (if is_digit c then more_digits (10 * v + digit_val c, Suc n) cs
      else if c = CHR ''_'' then
        (case cs of
           [] \<Rightarrow> None
         | d # ds \<Rightarrow> if is_digit d then more_digits (10 * v + digit_val d, Suc n) ds else None)
      else None)"

definition digitpart :: "string \<Rightarrow> (nat \<times> nat) option" where
  "digitpart s =
     (case s of
        [] \<Rightarrow> None
      | c # cs \<Rightarrow> if is_digit c then more_digits (digit_val c, 1) cs else None)"

definition signed :: "string \<Rightarrow> bool \<times> string" where
  "signed s =
     (case s of
        c # cs \<Rightarrow> if c = CHR ''-'' then (True, cs) else if c = CHR ''+'' then (False, cs) else (False, s)
      | [] \<Rightarrow> (False, s))"

definition py_int :: "string \<Rightarrow> int option" where
  "py_int s =
     (let (neg, body) = signed (py_strip s)
      in case digitpart body of
           None \<Rightarrow> None
         | Some (v, n) \<Rightarrow> Some (if neg then - int v else int v))"


datatype pyfloat = Finite bool rat | Infinite bool | NaN bool

definition lower :: "char \<Rightarrow> char" where
  "lower c = (if 0x41 \<le> (of_char c :: nat) \<and> (of_char c :: nat) \<le> 0x5a
              then char_of (of_char c + 32 :: nat) else c)"

definition exponent :: "string \<Rightarrow> int option" where
  "exponent s =
     (case s of
        [] \<Rightarrow> Some 0
      | c # cs \<Rightarrow>
          if c = CHR ''e'' \<or> c = CHR ''E'' then
            (let (neg, body) = signed cs
             in case digitpart body of
                  None \<Rightarrow> None
                | Some (v, n) \<Rightarrow> Some (if neg then - int v else int v))
          else None)"

definition mantissa :: "string \<Rightarrow> rat option" where
  "mantissa s =
     (let ip = takeWhile (\<lambda>c. c \<noteq> CHR ''.'') s;
          rest = dropWhile (\<lambda>c. c \<noteq> CHR ''.'') s
      in case rest of
           [] \<Rightarrow> map_option (\<lambda>(v, n). of_nat v) (digitpart ip)
         | dot # fp \<Rightarrow>
             if fp = [] then map_option (\<lambda>(v, n). of_nat v) (digitpart ip)
             else if ip = [] then map_option (\<lambda>(w, m). of_nat w / 10 ^ m) (digitpart fp)
             else (case (digitpart ip, digitpart fp) of
                     (Some (v, n), Some (w, m)) \<Rightarrow> Some (of_nat v + of_nat w / 10 ^ m)
                   | _ \<Rightarrow> None))"

definition py_float :: "string \<Rightarrow> pyfloat option" where
  "py_float s =
     (let (neg, body) = signed (py_strip s);
          low = map lower body
      in if low = ''inf'' \<or> low = ''infinity'' then Some (Infinite neg)
         else if low = ''nan'' then Some (NaN neg)
         else
           (let is_mant = (\<lambda>c. is_digit c \<or> c = CHR ''_'' \<or> c = CHR ''.'')
            in case (mantissa (takeWhile is_mant body), exponent (dropWhile is_mant body)) of
                 (Some q, Some x) \<Rightarrow> Some (Finite neg (q * 10 powi x))
               | _ \<Rightarrow> None))"


text \<open>
  \<^verbatim>\<open>re.findall(r'[-+]?\d+(?:\.\d+)?', s)\<close>: the non-overlapping matches, scanning from
  the left. At each position the pattern takes an optional sign, then as many digits as
  there are (at least one), then a point with its digits if at least one digit follows
  the point; where no match starts, the scan moves on by one character.
\<close>

function findall_numbers :: "string \<Rightarrow> string list" where
  "findall_numbers [] = []"
| "findall_numbers (c # cs) =
     (let (sign, body) = (if c = CHR ''-'' \<or> c = CHR ''+'' then ([c], cs) else ([], c # cs));
          ds = takeWhile is_digit body;
          after = dropWhile is_digit body
      in if ds = [] then findall_numbers cs
         else
           (case after of
              dot # fs \<Rightarrow>
                if dot = CHR ''.'' \<and> takeWhile is_digit fs \<noteq> []
                then (sign @ ds @ [dot] @ takeWhile is_digit fs)
                       # findall_numbers (dropWhile is_digit fs)
                else (sign @ ds) # findall_numbers after
            | [] \<Rightarrow> [sign @ ds]))"
  by pat_completeness auto
termination
proof (relation "measure length")
  show "wf (measure length)" by simp
next
  fix c :: char and cs x sign body ds after
  assume "(sign, body) = x" 
  show "(cs, c # cs) \<in> measure length" by simp
next
  fix c :: char and cs :: string and x xa y xb xc x21 x22
  assume x: "x = (if c = CHR ''-'' \<or> c = CHR ''+'' then ([c], cs) else ([], c # cs))"
    and xy: "(xa, y) = x" and xb: "xb = takeWhile is_digit y" and xc: "xc = dropWhile is_digit y"
    and ne: "xb \<noteq> []" and a: "xc = x21 # x22"
  have ly: "length y \<le> Suc (length cs)" using x xy by (auto split: if_splits)
  have "length xc \<le> length y" unfolding xc by (rule length_dropWhile_le)
  then have l22: "length x22 < length y" using a by simp
  {
    assume "x21 = CHR ''.'' \<and> takeWhile is_digit x22 \<noteq> []"
    have "length (dropWhile is_digit x22) \<le> length x22" by (rule length_dropWhile_le)
    then show "(dropWhile is_digit x22, c # cs) \<in> measure length" using l22 ly by simp
  }
  {
    assume "\<not> (x21 = CHR ''.'' \<and> takeWhile is_digit x22 \<noteq> [])"
    have "length xb + length xc = length y" unfolding xb xc
      by (metis length_append takeWhile_dropWhile_id)
    then have "length xc < length y" using ne by (cases xb) auto
    then show "(xc, c # cs) \<in> measure length" using ly by simp
  }
qed


declare findall_numbers.simps [simp del]

section \<open>Python dicts\<close>

text \<open>The value a sequence of bytes denotes when read as a big-endian unsigned number.\<close>

definition be_nat :: "bytes \<Rightarrow> nat" where
  "be_nat bs = foldl (\<lambda>a b. a * 256 + unat b) 0 bs"

text \<open>
  A Python \<^verbatim>\<open>dict\<close> from \<^verbatim>\<open>str\<close> to \<^verbatim>\<open>str\<close> is an association list in insertion order
  (the order \<^verbatim>\<open>items()\<close> iterates in). \<^verbatim>\<open>d[k]\<close> raises KeyError for a missing key;
  \<^verbatim>\<open>d[k] = v\<close> overwrites the value in place or appends a new entry.
\<close>

type_synonym pydict = "(string \<times> string) list"

definition getitem :: "pydict \<Rightarrow> string \<Rightarrow> error + string" where
  "getitem d k = (case map_of d k of None \<Rightarrow> Inl (KeyError k) | Some v \<Rightarrow> Inr v)"

fun setitem :: "pydict \<Rightarrow> string \<Rightarrow> string \<Rightarrow> pydict" where
  "setitem [] k v = [(k, v)]"
| "setitem ((k', v') # d) k v = (if k' = k then (k, v) # d else (k', v') # setitem d k v)"

definition bind_err :: "error + 'a \<Rightarrow> ('a \<Rightarrow> error + 'b) \<Rightarrow> error + 'b" where
  "bind_err m f = (case m of Inl e \<Rightarrow> Inl e | Inr x \<Rightarrow> f x)"

section \<open>The simulated embedded MessagePack encoder (simulate\_c\_msgpack.py)\<close>

definition msgpack_encode_string :: "string \<Rightarrow> error + bytes" where
  "msgpack_encode_string s =
     (let data = encode_utf8 s;
          length = int (length data)
      in if length \<le> 31 then
           bind_err (py_bytes [0xa0 + length]) (\<lambda>tag. Inr (tag @ data))
         else if length \<le> 255 then
           bind_err (py_bytes [0xd9, length]) (\<lambda>tag. Inr (tag @ data))
         else
           bind_err (py_bytes [0xda, (drop_bit 8 length) AND 0xFF, length AND 0xFF])
             (\<lambda>tag. Inr (tag @ data)))"

definition msgpack_encode_map :: "int \<Rightarrow> error + bytes" where
  "msgpack_encode_map count =
     (if count \<le> 15 then py_bytes [0x80 + count]
      else py_bytes [0xde, (drop_bit 8 count) AND 0xFF, count AND 0xFF])"

text \<open>A list literal or comprehension whose items may raise: the first error wins.\<close>

fun map_err :: "('a \<Rightarrow> error + 'b) \<Rightarrow> 'a list \<Rightarrow> error + 'b list" where
  "map_err f [] = Inr []"
| "map_err f (x # xs) = bind_err (f x) (\<lambda>y. bind_err (map_err f xs) (\<lambda>ys. Inr (y # ys)))"

text \<open>The 20 field names in the declared order (the \<^verbatim>\<open>fields\<close> literal, lines 41-62).\<close>

definition field_order :: "string list" where
  "field_order =
     [''msisdn'', ''iso6346'', ''time'', ''rssi'', ''cgi'', ''ble-m'', ''bat-soc'',
      ''acc'', ''temperature'', ''humidity'', ''pressure'', ''door'', ''gnss'',
      ''latitude'', ''longitude'', ''altitude'', ''speed'', ''heading'', ''nsat'', ''hdop'']"

text \<open>
  The loop \<^verbatim>\<open>for key, value in fields\<close>: \<open>result\<close> is the bytearray built so far; each
  step extends it by the encoded key and the encoded value.
\<close>

fun encode_fields :: "bytes \<Rightarrow> (string \<times> string) list \<Rightarrow> error + bytes" where
  "encode_fields result [] = Inr result"
| "encode_fields result ((key, val) # fields) =
     bind_err (msgpack_encode_string key) (\<lambda>k.
     bind_err (msgpack_encode_string val) (\<lambda>v.
       encode_fields (result @ k @ v) fields))"

definition simulate_c_msgpack_compression :: "pydict \<Rightarrow> error + bytes" where
  "simulate_c_msgpack_compression data =
     bind_err (msgpack_encode_map 20) (\<lambda>header.
     bind_err (map_err (\<lambda>name. bind_err (getitem data name) (\<lambda>v. Inr (name, v))) field_order)
       (\<lambda>fields. encode_fields ([] @ header) fields))"

text \<open>\<^verbatim>\<open>generate_test_data\<close>: the literal record, in the order the source writes it.\<close>

definition generate_test_data :: pydict where
  "generate_test_data =
     [(''msisdn'', ''393600504920''),
      (''iso6346'', ''LMCU0954822''),
      (''time'', ''300725 221117.8''),
      (''rssi'', ''21''),
      (''cgi'', ''999-01-1-31D41''),
      (''ble-m'', ''1''),
      (''bat-soc'', ''93''),
      (''acc'', ''-974.0700 -25.1270 -45.6744''),
      (''temperature'', ''18.32''),
      (''humidity'', ''75.44''),
      (''pressure'', ''1016.7932''),
      (''door'', ''D''),
      (''gnss'', ''1''),
      (''latitude'', ''31.9277''),
      (''longitude'', ''28.6378''),
      (''altitude'', ''56.62''),
      (''speed'', ''0.8''),
      (''heading'', ''302.07''),
      (''nsat'', ''11''),
      (''hdop'', ''5.0'')]"

section \<open>The reference MessagePack encoder (MessagePack Project/locust\_sender.py)\<close>

text \<open>
  Modelled from the spec: \<^verbatim>\<open>msgpack.packb\<close> and \<^verbatim>\<open>msgpack.unpackb\<close> belong to the msgpack
  library, which is not among the repository's sources; \<^verbatim>\<open>msgpack_compress\<close> only calls
  \<^verbatim>\<open>packb(data, use_bin_type=True)\<close>. The model covers dicts from \<^verbatim>\<open>str\<close> to \<^verbatim>\<open>str\<close> and
  follows the byte grammar of the spec's section 6 (map header: \<open>0x80 + count\<close> up to 15,
  else \<open>0xde\<close> and a 2-byte big-endian count; string: \<open>0xa0 + len\<close> up to 31 bytes, \<open>0xd9\<close>
  and a 1-byte length up to 255, \<open>0xda\<close> and a 2-byte big-endian length beyond), applied
  to the dict's items in the dict's own iteration order, which is all the call passes on.
  Where two bytes cannot hold the number the MessagePack format continues with a 4-byte
  big-endian length (\<open>0xdb\<close> for strings, \<open>0xdf\<close> for maps); past 32 bits the packer raises
  ValueError.
\<close>

fun be_bytes :: "nat \<Rightarrow> nat \<Rightarrow> bytes" where
  "be_bytes 0 n = []"
| "be_bytes (Suc k) n = be_bytes k (n div 256) @ [word_of_nat n]"

definition pack_str :: "string \<Rightarrow> error + bytes" where
  "pack_str s =
     (let data = encode_utf8 s; n = length data
      in if n \<le> 31 then Inr (word_of_nat (0xa0 + n) # data)
         else if n \<le> 0xff then Inr (0xd9 # be_bytes 1 n @ data)
         else if n \<le> 0xffff then Inr (0xda # be_bytes 2 n @ data)
         else if n \<le> 0xffffffff then Inr (0xdb # be_bytes 4 n @ data)
         else Inl ValueError)"

definition pack_map_header :: "nat \<Rightarrow> error + bytes" where
  "pack_map_header n =
     (if n \<le> 15 then Inr [word_of_nat (0x80 + n)]
      else if n \<le> 0xffff then Inr (0xde # be_bytes 2 n)
      else if n \<le> 0xffffffff then Inr (0xdf # be_bytes 4 n)
      else Inl ValueError)"

fun pack_items :: "(string \<times> string) list \<Rightarrow> error + bytes" where
  "pack_items [] = Inr []"
| "pack_items ((k, v) # items) =
     bind_err (pack_str k) (\<lambda>kb.
     bind_err (pack_str v) (\<lambda>vb.
     bind_err (pack_items items) (\<lambda>rest. Inr (kb @ vb @ rest))))"

definition msgpack_packb :: "pydict \<Rightarrow> error + bytes" where
  "msgpack_packb d =
     bind_err (pack_map_header (length d)) (\<lambda>header.
     bind_err (pack_items d) (\<lambda>body. Inr (header @ body)))"

definition msgpack_compress :: "pydict \<Rightarrow> error + bytes" where
  "msgpack_compress data = msgpack_packb data"

text \<open>
  \<^verbatim>\<open>msgpack.unpackb(data, raw=False)\<close> on the same fragment of the format: a map whose
  keys and values are strings. A truncated input, an object of another type and bytes
  left over after the map are errors.
\<close>

definition take_str :: "nat \<Rightarrow> bytes \<Rightarrow> error + (string \<times> bytes)" where
  "take_str n bs = (if length bs < n then Inl ValueError else Inr (decode_utf8 (take n bs), drop n bs))"

fun unpack_str :: "bytes \<Rightarrow> error + (string \<times> bytes)" where
  "unpack_str [] = Inl ValueError"
| "unpack_str (b # bs) =
     (if 0xa0 \<le> b \<and> b \<le> 0xbf then take_str (unat b - 0xa0) bs
      else if b = 0xd9 then
        (if length bs < 1 then Inl ValueError else take_str (be_nat (take 1 bs)) (drop 1 bs))
      else if b = 0xda then
        (if length bs < 2 then Inl ValueError else take_str (be_nat (take 2 bs)) (drop 2 bs))
      else if b = 0xdb then
        (if length bs < 4 then Inl ValueError else take_str (be_nat (take 4 bs)) (drop 4 bs))
      else Inl ValueError)"

fun unpack_items :: "nat \<Rightarrow> pydict \<Rightarrow> bytes \<Rightarrow> error + (pydict \<times> bytes)" where
  "unpack_items 0 d bs = Inr (d, bs)"
| "unpack_items (Suc n) d bs =
     bind_err (unpack_str bs) (\<lambda>(k, bs1).
     bind_err (unpack_str bs1) (\<lambda>(v, bs2).
       unpack_items n (setitem d k v) bs2))"

definition unpack_map_header :: "bytes \<Rightarrow> error + (nat \<times> bytes)" where
  "unpack_map_header bs =
     (case bs of
        [] \<Rightarrow> Inl ValueError
      | b # rest \<Rightarrow>
          if 0x80 \<le> b \<and> b \<le> 0x8f then Inr (unat b - 0x80, rest)
          else if b = 0xde then
            (if length rest < 2 then Inl ValueError else Inr (be_nat (take 2 rest), drop 2 rest))
          else if b = 0xdf then
            (if length rest < 4 then Inl ValueError else Inr (be_nat (take 4 rest), drop 4 rest))
          else Inl ValueError)"

definition msgpack_unpackb :: "bytes \<Rightarrow> error + pydict" where
  "msgpack_unpackb bs =
     bind_err (unpack_map_header bs) (\<lambda>(n, rest).
     bind_err (unpack_items n [] rest) (\<lambda>(d, extra).
       if extra = [] then Inr d else Inl ValueError))"

section \<open>The Compact Struct encoder (Struct\_Zlib\_Service/locust\_sender.py)\<close>

text \<open>
  The values of the typed dict: a \<^verbatim>\<open>str\<close>, an \<^verbatim>\<open>int\<close>, a \<^verbatim>\<open>float\<close> or a list.
\<close>

datatype pyval = PyStr string | PyInt int | PyFloat pyfloat | PyList "pyval list"

type_synonym typed_dict = "(string \<times> pyval) list"

definition MAX_PAYLOAD_SIZE :: nat where
  "MAX_PAYLOAD_SIZE = 158"

definition to_int :: "string \<Rightarrow> error + pyval" where
  "to_int s = (case py_int s of None \<Rightarrow> Inl ValueError | Some n \<Rightarrow> Inr (PyInt n))"

definition to_float :: "string \<Rightarrow> error + pyval" where
  "to_float s = (case py_float s of None \<Rightarrow> Inl ValueError | Some x \<Rightarrow> Inr (PyFloat x))"

text \<open>
  \<^verbatim>\<open>convert_to_typed_data\<close>: the entries of the dict literal in the order the source
  writes them, each with the conversion applied to \<^verbatim>\<open>string_data[name]\<close>: none for the
  five strings, \<^verbatim>\<open>int\<close>, \<^verbatim>\<open>float\<close>, and for \<^verbatim>\<open>acc\<close> the comprehension
  \<^verbatim>\<open>[float(x) for x in string_data["acc"].split()]\<close>. The first lookup or conversion
  that raises ends the call.
\<close>

datatype conversion = Keep | ToInt | ToFloat | ToFloats

definition typed_entry :: "pydict \<Rightarrow> string \<times> conversion \<Rightarrow> error + (string \<times> pyval)" where
  "typed_entry string_data entry =
     (case entry of (name, conv) \<Rightarrow>
        bind_err (getitem string_data name) (\<lambda>s.
        bind_err
          (case conv of
             Keep \<Rightarrow> Inr (PyStr s)
           | ToInt \<Rightarrow> to_int s
           | ToFloat \<Rightarrow> to_float s
           | ToFloats \<Rightarrow> bind_err (map_err to_float (py_split s)) (\<lambda>xs. Inr (PyList xs)))
          (\<lambda>v. Inr (name, v))))"

definition convert_to_typed_data :: "pydict \<Rightarrow> error + typed_dict" where
  "convert_to_typed_data string_data =
     map_err (typed_entry string_data)
       [(''msisdn'', Keep), (''iso6346'', Keep), (''time'', Keep), (''cgi'', Keep),
        (''door'', Keep),
        (''rssi'', ToInt), (''ble-m'', ToInt), (''bat-soc'', ToInt), (''gnss'', ToInt), (''nsat'', ToInt),
        (''temperature'', ToFloat), (''humidity'', ToFloat), (''pressure'', ToFloat),
        (''latitude'', ToFloat), (''longitude'', ToFloat), (''altitude'', ToFloat),
        (''speed'', ToFloat), (''heading'', ToFloat), (''hdop'', ToFloat),
        (''acc'', ToFloats)]"

text \<open>
  \<^verbatim>\<open>struct.pack\<close> for the three format characters the encoder uses, byte order \<^verbatim>\<open>>\<close>
  (big-endian, no padding): \<^verbatim>\<open>H\<close> an unsigned 16-bit integer, \<^verbatim>\<open>B\<close> an unsigned byte,
  \<^verbatim>\<open>f\<close> a binary32 float. The number of values must equal the number of format
  characters; an integer out of range is \<^verbatim>\<open>struct.error\<close>; a float too large for
  binary32 is OverflowError. The IEEE-754 conversion itself is the parameter \<open>single\<close>:
  the 32 bits of the binary32 nearest to the float, \<open>None\<close> when it overflows.
\<close>

datatype fmt = Fmt_H | Fmt_B | Fmt_f

definition word_be32 :: "32 word \<Rightarrow> bytes" where
  "word_be32 w = [ucast (drop_bit 24 w), ucast (drop_bit 16 w), ucast (drop_bit 8 w), ucast w]"

definition float_of_int :: "int \<Rightarrow> pyfloat" where
  "float_of_int n = Finite (n < 0) (of_int \<bar>n\<bar>)"

definition pack_item :: "(pyfloat \<Rightarrow> 32 word option) \<Rightarrow> fmt \<Rightarrow> pyval \<Rightarrow> error + bytes" where
  "pack_item single c v =
     (case c of
        Fmt_H \<Rightarrow>
          (case v of
             PyInt n \<Rightarrow>
               if 0 \<le> n \<and> n \<le> 0xffff then Inr (be_bytes 2 (nat n))
               else Inl (StructError UShortRange)
           | _ \<Rightarrow> Inl (StructError NotAnInteger))
      | Fmt_B \<Rightarrow>
          (case v of
             PyInt n \<Rightarrow>
               if 0 \<le> n \<and> n \<le> 0xff then Inr [word_of_int n]
               else Inl (StructError UByteRange)
           | _ \<Rightarrow> Inl (StructError NotAnInteger))
      | Fmt_f \<Rightarrow>
          (case (case v of PyFloat x \<Rightarrow> Some x | PyInt n \<Rightarrow> Some (float_of_int n)
                          | _ \<Rightarrow> None) of
             None \<Rightarrow> Inl (StructError NotAFloat)
           | Some x \<Rightarrow>
               (case single x of None \<Rightarrow> Inl OverflowError | Some w \<Rightarrow> Inr (word_be32 w))))"

fun struct_pack_items ::
  "(pyfloat \<Rightarrow> 32 word option) \<Rightarrow> fmt list \<Rightarrow> pyval list \<Rightarrow> error + bytes" where
  "struct_pack_items single [] vs = Inr []"
| "struct_pack_items single (c # cs) [] = Inl (StructError WrongCount)"
| "struct_pack_items single (c # cs) (v # vs) =
     bind_err (pack_item single c v) (\<lambda>b.
     bind_err (struct_pack_items single cs vs) (\<lambda>bs. Inr (b @ bs)))"

definition struct_pack ::
  "(pyfloat \<Rightarrow> 32 word option) \<Rightarrow> fmt list \<Rightarrow> pyval list \<Rightarrow> error + bytes" where
  "struct_pack single format_string vs =
     (if length vs \<noteq> length format_string then Inl (StructError WrongCount)
      else struct_pack_items single format_string vs)"

text \<open>
  The loop of \<^verbatim>\<open>struct_zlib_compress\<close> over \<^verbatim>\<open>field_order\<close> (the same 20 names, in the
  same order, as the \<^verbatim>\<open>fields\<close> literal of the simulated encoder). The state is the three
  lists the loop appends to.
\<close>

record pack_lists =
  format_parts :: "fmt list"
  vals :: "pyval list"
  string_data :: "bytes list"

definition typed_getitem :: "typed_dict \<Rightarrow> string \<Rightarrow> error + pyval" where
  "typed_getitem d k = (case map_of d k of None \<Rightarrow> Inl (KeyError k) | Some v \<Rightarrow> Inr v)"

definition add_field :: "typed_dict \<Rightarrow> pack_lists \<Rightarrow> string \<Rightarrow> error + pack_lists" where
  "add_field typed_data st field =
     bind_err (typed_getitem typed_data field) (\<lambda>v.
       if field \<in> set [''msisdn'', ''iso6346'', ''time'', ''cgi'', ''door''] then
         (case v of
            PyStr s \<Rightarrow>
              (let encoded_str = encode_utf8 s
               in Inr (st\<lparr>format_parts := format_parts st @ [Fmt_H],
                          vals := vals st @ [PyInt (int (length encoded_str))],
                          string_data := string_data st @ [encoded_str]\<rparr>))
          | _ \<Rightarrow> Inl TypeError)
       else if field \<in> set [''rssi'', ''ble-m'', ''bat-soc'', ''gnss'', ''nsat''] then
         Inr (st\<lparr>format_parts := format_parts st @ [Fmt_B], vals := vals st @ [v]\<rparr>)
       else if field = ''acc'' then
         (case v of
            PyList xs \<Rightarrow>
              Inr (st\<lparr>format_parts := format_parts st @ [Fmt_f, Fmt_f, Fmt_f], vals := vals st @ take 3 xs\<rparr>)
          | _ \<Rightarrow> Inl TypeError)
       else
         Inr (st\<lparr>format_parts := format_parts st @ [Fmt_f], vals := vals st @ [v]\<rparr>))"

fun add_fields :: "typed_dict \<Rightarrow> pack_lists \<Rightarrow> string list \<Rightarrow> error + pack_lists" where
  "add_fields typed_data st [] = Inr st"
| "add_fields typed_data st (field # rest) =
     bind_err (add_field typed_data st field) (\<lambda>st'. add_fields typed_data st' rest)"

text \<open>
  \<open>struct_buffer\<close> is \<^verbatim>\<open>binary_data\<close> as it stands before the last line of
  \<^verbatim>\<open>struct_zlib_compress\<close>: the packed block with the string bytes appended.
  \<^verbatim>\<open>zlib.compress\<close> is the parameter \<open>zlib_compress\<close> (level first).
\<close>

definition struct_buffer :: "(pyfloat \<Rightarrow> 32 word option) \<Rightarrow> pydict \<Rightarrow> error + bytes" where
  "struct_buffer single data =
     bind_err (convert_to_typed_data data) (\<lambda>typed_data.
     bind_err (add_fields typed_data
                 \<lparr>format_parts = [], vals = [], string_data = []\<rparr> field_order) (\<lambda>st.
     bind_err (struct_pack single (format_parts st) (vals st)) (\<lambda>binary_data.
       Inr (foldl (\<lambda>binary_data string_bytes. binary_data @ string_bytes)
              binary_data (string_data st)))))"

definition struct_zlib_compress ::
  "(pyfloat \<Rightarrow> 32 word option) \<Rightarrow> (nat \<Rightarrow> bytes \<Rightarrow> bytes) \<Rightarrow> pydict \<Rightarrow> error + bytes" where
  "struct_zlib_compress single zlib_compress data =
     bind_err (struct_buffer single data) (\<lambda>binary_data. Inr (zlib_compress 9 binary_data))"

text \<open>
  The pool of \<^verbatim>\<open>ContainerDataSender.initialize_data_pool\<close> (lines 117-157), on its
  first call (\<^verbatim>\<open>_pool_initialized\<close> is false). The random
  generator is the sequence \<open>gen\<close>: \<open>gen i\<close> is what the call number \<open>i\<close> of
  \<^verbatim>\<open>generate_test_container_data\<close> returns; \<open>calls\<close> counts the calls made so far. The
  two nested \<^verbatim>\<open>while\<close> loops may run forever (when no generated record fits), so each
  is a partial function: \<open>None\<close> is a loop that does not end, \<open>Some (Inl e)\<close> one that
  ends because \<^verbatim>\<open>struct_zlib_compress\<close> raised.
  After the loops the method computes \<^verbatim>\<open>avg_size\<close> as a sum divided by
  \<^verbatim>\<open>len(cls._data_pool)\<close>, which raises ZeroDivisionError on an empty pool. The log lines
  and the clock they read are not modelled.
\<close>

record pool_entry =
  original_of :: pydict
  compressed_of :: bytes
  size_of :: nat

record pool_state =
  data_pool :: "pool_entry list"
  generated_count :: int
  rejected_count :: int
  batch_generated :: int
  calls :: nat

partial_function (option) batch_loop ::
  "(pyfloat \<Rightarrow> 32 word option) \<Rightarrow> (nat \<Rightarrow> bytes \<Rightarrow> bytes) \<Rightarrow> (nat \<Rightarrow> pydict)
     \<Rightarrow> int \<Rightarrow> pool_state \<Rightarrow> (error + pool_state) option" where
  "batch_loop single zlib_compress gen batch_target st =
     (if batch_generated st < batch_target then
        (let data = gen (calls st);
             st1 = st\<lparr>calls := Suc (calls st)\<rparr>
         in case struct_zlib_compress single zlib_compress data of
              Inl e \<Rightarrow> Some (Inl e)
            | Inr compressed \<Rightarrow>
                (let sz = length compressed
                 in if sz \<ge> MAX_PAYLOAD_SIZE then
                      batch_loop single zlib_compress gen batch_target
                        (st1\<lparr>rejected_count := rejected_count st1 + 1\<rparr>)
                    else
                      batch_loop single zlib_compress gen batch_target
                        (st1\<lparr>data_pool := data_pool st1
                               @ [\<lparr>original_of = data, compressed_of = compressed, size_of = sz\<rparr>],
                             batch_generated := batch_generated st1 + 1,
                             generated_count := generated_count st1 + 1\<rparr>)))
      else Some (Inr st))"

partial_function (option) pool_loop ::
  "(pyfloat \<Rightarrow> 32 word option) \<Rightarrow> (nat \<Rightarrow> bytes \<Rightarrow> bytes) \<Rightarrow> (nat \<Rightarrow> pydict)
     \<Rightarrow> int \<Rightarrow> pool_state \<Rightarrow> (error + pool_state) option" where
  "pool_loop single zlib_compress gen data_pool_size st =
     (if generated_count st < data_pool_size then
        (let batch_target = min 50000 (data_pool_size - generated_count st)
         in case batch_loop single zlib_compress gen batch_target (st\<lparr>batch_generated := 0\<rparr>) of
              None \<Rightarrow> None
            | Some (Inl e) \<Rightarrow> Some (Inl e)
            | Some (Inr st') \<Rightarrow> pool_loop single zlib_compress gen data_pool_size st')
      else Some (Inr st))"

definition initialize_data_pool ::
  "(pyfloat \<Rightarrow> 32 word option) \<Rightarrow> (nat \<Rightarrow> bytes \<Rightarrow> bytes) \<Rightarrow> (nat \<Rightarrow> pydict)
     \<Rightarrow> int \<Rightarrow> (error + pool_state) option" where
  "initialize_data_pool single zlib_compress gen data_pool_size =
     (case pool_loop single zlib_compress gen data_pool_size
             \<lparr>data_pool = [], generated_count = 0, rejected_count = 0, batch_generated = 0,
                calls = 0\<rparr> of
        None \<Rightarrow> None
      | Some (Inl e) \<Rightarrow> Some (Inl e)
      | Some (Inr st) \<Rightarrow>
          if length (data_pool st) = 0 then Some (Inl ZeroDivisionError) else Some (Inr st))"

section \<open>The positional-schema encoder (Protobuf\_Service\_with\_Dashboard/encoder\_to\_astrocast.py)\<close>

definition REQUIRED_FIELDS :: "string list" where
  "REQUIRED_FIELDS =
     [''msisdn'', ''iso6346'', ''time'', ''rssi'', ''cgi'', ''ble-m'', ''bat-soc'',
      ''acc'', ''temperature'', ''humidity'', ''pressure'', ''door'', ''gnss'',
      ''latitude'', ''longitude'', ''altitude'', ''speed'', ''heading'', ''nsat'', ''hdop'']"

definition parse_acc :: "string \<Rightarrow> error + pyval list" where
  "parse_acc acc_raw =
     (let s = acc_raw;
          nums = findall_numbers s
      in if length nums \<noteq> 3 then Inl ValueError
         else map_err to_float nums)"

text \<open>
  \<^verbatim>\<open>json_to_protobuf\<close> fills the message field by field, in the order of the source:
  \<^verbatim>\<open>_str\<close>, \<^verbatim>\<open>_int\<close> and \<^verbatim>\<open>_float\<close> are the identity, \<^verbatim>\<open>int\<close> and \<^verbatim>\<open>float\<close> on the
  textual values of a record. The message is the list of its fields with their values.
\<close>

definition pb_field ::
  "pydict \<Rightarrow> (string \<Rightarrow> error + pyval) \<Rightarrow> string \<times> string \<Rightarrow> error + (string \<times> pyval)" where
  "pb_field data conv entry =
     (case entry of (attr, key) \<Rightarrow>
        bind_err (getitem data key) (\<lambda>s. bind_err (conv s) (\<lambda>v. Inr (attr, v))))"

definition json_to_protobuf :: "pydict \<Rightarrow> error + typed_dict" where
  "json_to_protobuf data =
     bind_err (map_err (pb_field data (\<lambda>s. Inr (PyStr s)))
                 [(''msisdn'', ''msisdn''), (''iso6346'', ''iso6346''), (''time'', ''time''),
                  (''cgi'', ''cgi''), (''door'', ''door'')]) (\<lambda>strs.
     bind_err (map_err (pb_field data to_int)
                 [(''rssi'', ''rssi''), (''ble_m'', ''ble-m''), (''bat_soc'', ''bat-soc''),
                  (''gnss'', ''gnss''), (''nsat'', ''nsat'')]) (\<lambda>ints.
     bind_err (bind_err (getitem data ''acc'') parse_acc) (\<lambda>acc.
     bind_err (case acc of
                 [acc_x, acc_y, acc_z] \<Rightarrow>
                   Inr [(''acc_x'', acc_x), (''acc_y'', acc_y), (''acc_z'', acc_z)]
               | _ \<Rightarrow> Inl ValueError) (\<lambda>accs.
     bind_err (map_err (pb_field data to_float)
                 [(''temperature'', ''temperature''), (''humidity'', ''humidity''),
                  (''pressure'', ''pressure''), (''latitude'', ''latitude''),
                  (''longitude'', ''longitude''), (''altitude'', ''altitude''),
                  (''speed'', ''speed''), (''heading'', ''heading''), (''hdop'', ''hdop'')])
       (\<lambda>floats. Inr (strs @ ints @ accs @ floats))))))"

definition validate_fields :: "pydict \<Rightarrow> error + unit" where
  "validate_fields d =
     (let missing = filter (\<lambda>k. map_of d k = None) REQUIRED_FIELDS
      in if missing \<noteq> [] then Inl (MissingFields missing) else Inr ())"

text \<open>
  \<^verbatim>\<open>serialize\<close>. The generated module \<^verbatim>\<open>container_data_pb2\<close> is not among the
  sources: \<open>SerializeToString\<close> is a parameter, the bytes the message with these field
  values serialises to (\<open>Inl\<close> when setting a field or serialising raises).
\<close>

definition serialize :: "(typed_dict \<Rightarrow> error + bytes) \<Rightarrow> pydict \<Rightarrow> error + bytes" where
  "serialize SerializeToString data =
     bind_err (json_to_protobuf data) (\<lambda>pb.
     bind_err (SerializeToString pb) (\<lambda>raw.
       if length raw \<ge> MAX_PAYLOAD_SIZE
       then Inl (PayloadTooLarge (length raw) MAX_PAYLOAD_SIZE)
       else Inr raw))"

section \<open>Closed forms used in the statements\<close>

text \<open>
  The tag bytes \<^verbatim>\<open>msgpack_encode_string\<close> puts in front of a string of \<open>n\<close> bytes, in
  closed form (the range checks of \<^verbatim>\<open>bytes([...])\<close> resolved).
\<close>

definition string_tag :: "nat \<Rightarrow> bytes" where
  "string_tag n =
     (if n \<le> 31 then [word_of_nat (0xa0 + n)]
      else if n \<le> 255 then [0xd9, word_of_nat n]
      else [0xda, word_of_nat (n div 256 mod 256), word_of_nat (n mod 256)])"

text \<open>A string with its tag, and a key-value pair, as the encoders lay them out.\<close>

definition str_bytes :: "string \<Rightarrow> bytes" where
  "str_bytes s = string_tag (length s) @ encode_utf8 s"

definition pair_bytes :: "string \<times> string \<Rightarrow> bytes" where
  "pair_bytes kv = str_bytes (fst kv) @ str_bytes (snd kv)"

text \<open>
  A valid telemetry record: a dict whose keys are exactly the 20 field names (Python dict
  keys are distinct by construction), in any insertion order.
\<close>

definition valid_record :: "pydict \<Rightarrow> bool" where
  "valid_record r = (distinct (map fst r) \<and> set (map fst r) = set field_order)"

text \<open>
  The literal record with the value of \<open>msisdn\<close> replaced by a string of 65536 bytes.
\<close>

definition oversized_record :: pydict where
  "oversized_record = (''msisdn'', replicate 65536 CHR ''a'') # tl generate_test_data"

text \<open>
  The names the loop of \<^verbatim>\<open>struct_zlib_compress\<close> tests for: the five texts (line 73),
  the five small integers (line 78); the nine other names, \<^verbatim>\<open>acc\<close> apart, are the floats
  of its last branch.
\<close>

definition text_fields :: "string list" where
  "text_fields = [''msisdn'', ''iso6346'', ''time'', ''cgi'', ''door'']"

definition int_fields :: "string list" where
  "int_fields = [''rssi'', ''ble-m'', ''bat-soc'', ''gnss'', ''nsat'']"

definition float_fields :: "string list" where
  "float_fields = [''temperature'', ''humidity'', ''pressure'', ''latitude'', ''longitude'',
                   ''altitude'', ''speed'', ''heading'', ''hdop'']"

text \<open>
  What \<^verbatim>\<open>convert_to_typed_data\<close> reads from a record it succeeds on: the text of a
  field, the value \<^verbatim>\<open>int\<close> or \<^verbatim>\<open>float\<close> gives it, the pieces \<^verbatim>\<open>split()\<close> cuts the
  \<^verbatim>\<open>acc\<close> string into, and their values under \<^verbatim>\<open>float\<close>.
\<close>

definition field_text :: "pydict \<Rightarrow> string \<Rightarrow> string" where
  "field_text d k = the (map_of d k)"

definition field_int :: "pydict \<Rightarrow> string \<Rightarrow> int" where
  "field_int d k = the (py_int (field_text d k))"

definition field_float :: "pydict \<Rightarrow> string \<Rightarrow> pyfloat" where
  "field_float d k = the (py_float (field_text d k))"

definition acc_tokens :: "pydict \<Rightarrow> string list" where
  "acc_tokens d = py_split (field_text d ''acc'')"

definition acc_floats :: "pydict \<Rightarrow> pyfloat list" where
  "acc_floats d = map (\<lambda>t. the (py_float t)) (acc_tokens d)"

text \<open>
  \<open>converts d\<close>: every lookup and every conversion of \<^verbatim>\<open>convert_to_typed_data\<close> succeeds
  on \<open>d\<close> (the 20 fields are present, the five integers and nine floats parse, every
  piece of the \<^verbatim>\<open>acc\<close> string parses). \<open>typed_of d\<close> is the typed dict it then returns.
\<close>

definition converts :: "pydict \<Rightarrow> bool" where
  "converts d =
     (list_all (\<lambda>k. map_of d k \<noteq> None) (text_fields @ int_fields @ float_fields @ [''acc''])
      \<and> list_all (\<lambda>k. py_int (field_text d k) \<noteq> None) int_fields
      \<and> list_all (\<lambda>k. py_float (field_text d k) \<noteq> None) float_fields
      \<and> list_all (\<lambda>t. py_float t \<noteq> None) (acc_tokens d))"

definition typed_of :: "pydict \<Rightarrow> typed_dict" where
  "typed_of d =
     map (\<lambda>k. (k, PyStr (field_text d k))) text_fields
     @ map (\<lambda>k. (k, PyInt (field_int d k))) int_fields
     @ map (\<lambda>k. (k, PyFloat (field_float d k))) float_fields
     @ [(''acc'', PyList (map PyFloat (acc_floats d)))]"

text \<open>
  The format characters and the values the loop over \<^verbatim>\<open>field_order\<close> collects for such
  a record, in closed form: \<^verbatim>\<open>H\<close> with the UTF-8 length for a text, \<^verbatim>\<open>B\<close> for a small
  integer, \<^verbatim>\<open>fff\<close> with the first three \<^verbatim>\<open>acc\<close> values, \<^verbatim>\<open>f\<close> for a float.
\<close>

definition struct_format :: "fmt list" where
  "struct_format =
     [Fmt_H, Fmt_H, Fmt_H, Fmt_B, Fmt_H, Fmt_B, Fmt_B, Fmt_f, Fmt_f, Fmt_f, Fmt_f, Fmt_f,
      Fmt_f, Fmt_H, Fmt_B, Fmt_f, Fmt_f, Fmt_f, Fmt_f, Fmt_f, Fmt_B, Fmt_f]"

definition text_length :: "pydict \<Rightarrow> string \<Rightarrow> nat" where
  "text_length d k = length (encode_utf8 (field_text d k))"

definition struct_values :: "pydict \<Rightarrow> pyval list" where
  "struct_values d =
     [PyInt (int (text_length d ''msisdn'')), PyInt (int (text_length d ''iso6346'')),
      PyInt (int (text_length d ''time'')), PyInt (field_int d ''rssi''),
      PyInt (int (text_length d ''cgi'')), PyInt (field_int d ''ble-m''),
      PyInt (field_int d ''bat-soc'')]
     @ take 3 (map PyFloat (acc_floats d))
     @ [PyFloat (field_float d ''temperature''), PyFloat (field_float d ''humidity''),
        PyFloat (field_float d ''pressure''), PyInt (int (text_length d ''door'')),
        PyInt (field_int d ''gnss''), PyFloat (field_float d ''latitude''),
        PyFloat (field_float d ''longitude''), PyFloat (field_float d ''altitude''),
        PyFloat (field_float d ''speed''), PyFloat (field_float d ''heading''),
        PyInt (field_int d ''nsat''), PyFloat (field_float d ''hdop'')]"

text \<open>
  A record with in-range field values: it converts, the \<^verbatim>\<open>acc\<close> string has at least 3
  pieces, every text length fits the \<^verbatim>\<open>H\<close> format, every small integer fits the \<^verbatim>\<open>B\<close>
  format, and each of the 12 floats fits binary32.
\<close>

definition in_range :: "(pyfloat \<Rightarrow> 32 word option) \<Rightarrow> pydict \<Rightarrow> bool" where
  "in_range single d =
     (converts d \<and> 3 \<le> length (acc_tokens d)
      \<and> list_all (\<lambda>k. text_length d k \<le> 65535) text_fields
      \<and> list_all (\<lambda>k. 0 \<le> field_int d k \<and> field_int d k \<le> 255) int_fields
      \<and> list_all (\<lambda>x. single x \<noteq> None) (take 3 (acc_floats d))
      \<and> list_all (\<lambda>k. single (field_float d k) \<noteq> None) float_fields)"

text \<open>
  The layout of the buffer: the 2-byte big-endian length of a text, the byte of a small
  integer, the 4 big-endian bytes of a float, the fixed-width block in the declared
  order of the 20 fields, and the UTF-8 bytes of the five texts.
\<close>

definition text_header :: "pydict \<Rightarrow> string \<Rightarrow> bytes" where
  "text_header d k = be_bytes 2 (text_length d k)"

definition int_byte :: "pydict \<Rightarrow> string \<Rightarrow> bytes" where
  "int_byte d k = [word_of_int (field_int d k)]"

definition float32 :: "(pyfloat \<Rightarrow> 32 word option) \<Rightarrow> pyfloat \<Rightarrow> bytes" where
  "float32 single x = word_be32 (the (single x))"

definition fixed_width_block :: "(pyfloat \<Rightarrow> 32 word option) \<Rightarrow> pydict \<Rightarrow> bytes" where
  "fixed_width_block single d =
     text_header d ''msisdn'' @ text_header d ''iso6346'' @ text_header d ''time''
     @ int_byte d ''rssi'' @ text_header d ''cgi'' @ int_byte d ''ble-m'' @ int_byte d ''bat-soc''
     @ concat (map (float32 single) (take 3 (acc_floats d)))
     @ float32 single (field_float d ''temperature'')
     @ float32 single (field_float d ''humidity'')
     @ float32 single (field_float d ''pressure'')
     @ text_header d ''door'' @ int_byte d ''gnss''
     @ float32 single (field_float d ''latitude'')
     @ float32 single (field_float d ''longitude'')
     @ float32 single (field_float d ''altitude'')
     @ float32 single (field_float d ''speed'')
     @ float32 single (field_float d ''heading'')
     @ int_byte d ''nsat''
     @ float32 single (field_float d ''hdop'')"

definition text_bytes :: "pydict \<Rightarrow> bytes" where
  "text_bytes d = concat (map (\<lambda>k. encode_utf8 (field_text d k)) text_fields)"

text \<open>
  A field that parses to an integer in 0..255, and one that parses to an integer outside
  0..255.
\<close>

definition byte_field :: "pydict \<Rightarrow> string \<Rightarrow> bool" where
  "byte_field d k =
     (case map_of d k of
        None \<Rightarrow> False
      | Some s \<Rightarrow> (case py_int s of None \<Rightarrow> False | Some n \<Rightarrow> 0 \<le> n \<and> n \<le> 255))"

definition outside_byte_range :: "pydict \<Rightarrow> string \<Rightarrow> bool" where
  "outside_byte_range d k =
     (case map_of d k of
        None \<Rightarrow> False
      | Some s \<Rightarrow> (case py_int s of None \<Rightarrow> False | Some n \<Rightarrow> n < 0 \<or> 255 < n))"

text \<open>
  Signed-decimal-number syntax, the pattern \<^verbatim>\<open>[-+]?\d+(?:\.\d+)?\<close> matched against a
  whole string: an optional sign, at least one digit, then nothing or a point followed
  by at least one digit and only digits.
\<close>

definition number_token :: "string \<Rightarrow> bool" where
  "number_token t =
     (let body = (case t of
                    [] \<Rightarrow> []
                  | c # cs \<Rightarrow> if c = CHR ''-'' \<or> c = CHR ''+'' then cs else t);
          ds = takeWhile is_digit body;
          rest = dropWhile is_digit body
      in ds \<noteq> [] \<and>
         (case rest of
            [] \<Rightarrow> True
          | dot # fs \<Rightarrow> dot = CHR ''.'' \<and> fs \<noteq> [] \<and> list_all is_digit fs))"

text \<open>
  \<open>weave gaps tokens\<close>: the string that has the tokens in order, with the gaps before,
  between and after them.
\<close>

fun weave :: "string list \<Rightarrow> string list \<Rightarrow> string" where
  "weave (g # gs) (t # ts) = g @ t @ weave gs ts"
| "weave gs [] = concat gs"
| "weave [] ts = concat ts"

(* DEFINITIONS END *)

section \<open>Facts about the byte helpers\<close>

lemma and_255_int: "(x::int) AND 0xFF = x mod 256"
proof -
  have "x AND mask 8 = x mod 2 ^ 8"
    by (simp only: take_bit_eq_mask [symmetric] take_bit_eq_mod)
  then show ?thesis by (simp add: mask_eq_exp_minus_1)
qed

lemma drop_bit_8_int: "drop_bit 8 (x::int) = x div 256"
  by (simp add: drop_bit_eq_div)

lemma py_bytes_in_range:
  "list_all (\<lambda>x. 0 \<le> x \<and> x < 256) xs \<Longrightarrow> py_bytes xs = Inr (map word_of_int xs)"
  by (simp add: py_bytes_def)

lemma bind_err_Inr [simp]: "bind_err (Inr x) f = f x"
  by (simp add: bind_err_def)

lemma bind_err_Inl [simp]: "bind_err (Inl e) f = Inl e"
  by (simp add: bind_err_def)

lemma be_nat_two: "be_nat [hi, lo] = unat hi * 256 + unat lo"
  by (simp add: be_nat_def)

lemma length_encode_utf8 [simp]: "length (encode_utf8 s) = length s"
  by (simp add: encode_utf8_def)

lemma uint_byte_of_int: "0 \<le> x \<Longrightarrow> x < 256 \<Longrightarrow> uint (word_of_int x :: byte) = x"
  by (simp add: uint_word_of_int take_bit_eq_mod)

lemma unat_byte_of_nat: "n < 256 \<Longrightarrow> unat (word_of_nat n :: byte) = n"
  by (simp add: unat_of_nat)

lemma int_div_mod_256: "int (n div 256 mod 256) = int n div 256 mod 256"
  by (simp add: zdiv_int zmod_int)

lemma int_mod_256: "int (n mod 256) = int n mod 256"
  by (simp add: zmod_int)

section \<open>The MessagePack tag bytes\<close>

lemma py_bytes_str16:
  "py_bytes [0xda, (drop_bit 8 (int n)) AND 0xFF, (int n) AND 0xFF]
     = Inr [0xda, word_of_nat (n div 256 mod 256), word_of_nat (n mod 256)]"
  unfolding and_255_int drop_bit_8_int int_div_mod_256 [symmetric] int_mod_256 [symmetric]
  by (simp add: py_bytes_def)

text \<open>\<^verbatim>\<open>msgpack_encode_string\<close> never raises: every tag byte it builds is in range.\<close>

lemma msgpack_encode_string_total:
  "msgpack_encode_string s = Inr (string_tag (length s) @ encode_utf8 s)"
proof -
  let ?n = "int (length s)"
  have a: "?n \<le> 31 \<Longrightarrow> py_bytes [0xa0 + ?n] = Inr [word_of_nat (0xa0 + length s)]"
    by (simp add: py_bytes_def)
  have b: "?n \<le> 255 \<Longrightarrow> py_bytes [0xd9, ?n] = Inr [0xd9, word_of_nat (length s)]"
    by (simp add: py_bytes_def)
  show ?thesis
    using a b py_bytes_str16 [of "length s"]
    by (simp add: msgpack_encode_string_def string_tag_def Let_def)
qed

text \<open>
  Claim C2, as amended. For a string whose UTF-8 encoding \<open>data\<close> has \<open>n\<close> bytes,
  \<^verbatim>\<open>msgpack_encode_string\<close> returns the byte \<open>0xa0 + n\<close> then \<open>data\<close> when \<open>n \<le> 31\<close>;
  \<open>0xd9\<close>, the byte \<open>n\<close>, then \<open>data\<close> when \<open>31 < n \<le> 255\<close>; and \<open>0xda\<close>, two bytes
  whose big-endian value is \<open>n\<close>, then \<open>data\<close> when \<open>255 < n \<le> 65535\<close>. For a count \<open>c\<close>,
  \<^verbatim>\<open>msgpack_encode_map\<close> returns the one byte \<open>0x80 + c\<close> when \<open>0 \<le> c \<le> 15\<close> and \<open>0xde\<close>
  followed by two bytes whose big-endian value is \<open>c\<close> when \<open>15 < c \<le> 65535\<close>; the header
  of the 20-entry record is \<open>0xde 0x00 0x14\<close>.
\<close>

theorem msgpack_tag_bytes:
  fixes s :: string and c :: int
  defines "data \<equiv> encode_utf8 s"
  defines "n \<equiv> length data"
  shows "(n \<le> 31 \<longrightarrow>
            msgpack_encode_string s = Inr (word_of_nat (0xa0 + n) # data)
            \<and> unat (word_of_nat (0xa0 + n) :: byte) = 0xa0 + n)
       \<and> (31 < n \<and> n \<le> 255 \<longrightarrow>
            msgpack_encode_string s = Inr (0xd9 # word_of_nat n # data)
            \<and> unat (word_of_nat n :: byte) = n)
       \<and> (255 < n \<and> n \<le> 65535 \<longrightarrow>
            msgpack_encode_string s
              = Inr (0xda # word_of_nat (n div 256) # word_of_nat (n mod 256) # data)
            \<and> be_nat [word_of_nat (n div 256), word_of_nat (n mod 256)] = n)
       \<and> (0 \<le> c \<and> c \<le> 15 \<longrightarrow>
            msgpack_encode_map c = Inr [word_of_int (0x80 + c)]
            \<and> uint (word_of_int (0x80 + c) :: byte) = 0x80 + c)
       \<and> (15 < c \<and> c \<le> 65535 \<longrightarrow>
            msgpack_encode_map c = Inr [0xde, word_of_int (c div 256), word_of_int (c mod 256)]
            \<and> int (be_nat [word_of_int (c div 256), word_of_int (c mod 256)]) = c)
       \<and> msgpack_encode_map 20 = Inr [0xde, 0x00, 0x14]"
proof -
  have n: "n = length s" by (simp add: n_def data_def)
  have s1: "n \<le> 31 \<Longrightarrow> msgpack_encode_string s = Inr (word_of_nat (0xa0 + n) # data)"
    by (simp add: msgpack_encode_string_total string_tag_def n data_def)
  have s1': "n \<le> 31 \<Longrightarrow> unat (word_of_nat (0xa0 + n) :: byte) = 0xa0 + n"
    by (rule unat_byte_of_nat) simp
  have s2: "31 < n \<Longrightarrow> n \<le> 255 \<Longrightarrow> msgpack_encode_string s = Inr (0xd9 # word_of_nat n # data)"
    by (simp add: msgpack_encode_string_total string_tag_def n data_def)
  have s2': "n \<le> 255 \<Longrightarrow> unat (word_of_nat n :: byte) = n"
    by (rule unat_byte_of_nat) simp
  have d: "n \<le> 65535 \<Longrightarrow> n div 256 mod 256 = n div 256" by simp
  have s3: "255 < n \<Longrightarrow> n \<le> 65535 \<Longrightarrow>
      msgpack_encode_string s
        = Inr (0xda # word_of_nat (n div 256) # word_of_nat (n mod 256) # data)"
    using d by (simp add: msgpack_encode_string_total string_tag_def n data_def)
  have s3': "n \<le> 65535 \<Longrightarrow> be_nat [word_of_nat (n div 256), word_of_nat (n mod 256)] = n"
    using d by (simp add: be_nat_two unat_of_nat)
  have m1: "0 \<le> c \<Longrightarrow> c \<le> 15 \<Longrightarrow> msgpack_encode_map c = Inr [word_of_int (0x80 + c)]"
    by (simp add: msgpack_encode_map_def py_bytes_def)
  have m1': "0 \<le> c \<Longrightarrow> c \<le> 15 \<Longrightarrow> uint (word_of_int (0x80 + c) :: byte) = 0x80 + c"
    by (rule uint_byte_of_int) simp_all
  have rc: "15 < c \<Longrightarrow> c \<le> 65535 \<Longrightarrow> 0 \<le> c div 256 \<and> c div 256 < 256" by presburger
  have dc: "15 < c \<Longrightarrow> c \<le> 65535 \<Longrightarrow> c div 256 mod 256 = c div 256"
    using rc by simp
  have m2: "15 < c \<Longrightarrow> c \<le> 65535 \<Longrightarrow>
       msgpack_encode_map c = Inr [0xde, word_of_int (c div 256), word_of_int (c mod 256)]"
    using dc rc by (simp add: msgpack_encode_map_def py_bytes_def and_255_int drop_bit_8_int)
  have hi: "15 < c \<Longrightarrow> c \<le> 65535 \<Longrightarrow> uint (word_of_int (c div 256) :: byte) = c div 256"
    using rc by (intro uint_byte_of_int) simp_all
  have lo: "uint (word_of_int (c mod 256) :: byte) = c mod 256"
    by (intro uint_byte_of_int) simp_all
  have m2': "15 < c \<Longrightarrow> c \<le> 65535 \<Longrightarrow>
       int (be_nat [word_of_int (c div 256), word_of_int (c mod 256)]) = c"
    using hi lo by (simp add: be_nat_two flip: uint_nat)
  have m3: "msgpack_encode_map 20 = Inr [0xde, 0x00, 0x14]"
    by (simp add: msgpack_encode_map_def py_bytes_def and_255_int drop_bit_8_int)
  show ?thesis using s1 s1' s2 s2' s3 s3' m1 m1' m2 m2' m3 by blast
qed

text \<open>
  The three string classes and the two map classes at concrete inputs: a 3-byte string,
  a 40-byte string, a 300-byte string, the counts 5 and 20.
\<close>

theorem msgpack_tag_bytes_witness:
  "msgpack_encode_string ''acc'' = Inr (0xa3 # encode_utf8 ''acc'')
   \<and> msgpack_encode_string (replicate 40 CHR ''x'')
       = Inr (0xd9 # 40 # encode_utf8 (replicate 40 CHR ''x''))
   \<and> msgpack_encode_string (replicate 300 CHR ''x'')
       = Inr (0xda # 0x01 # 0x2c # encode_utf8 (replicate 300 CHR ''x''))
   \<and> msgpack_encode_map 5 = Inr [0x85]
   \<and> msgpack_encode_map 20 = Inr [0xde, 0x00, 0x14]"
  using msgpack_tag_bytes [of "''acc''" 5]
        msgpack_tag_bytes [of "replicate 40 CHR ''x''" 20]
        msgpack_tag_bytes [of "replicate 300 CHR ''x''" 20]
  by simp

text \<open>
  Claim C2 as stated fails for a string of 65536 bytes and for the count 65536: the two
  length bytes are the low 16 bits of the length, here \<open>0x00 0x00\<close>, whose big-endian value
  is not the length.
\<close>

theorem msgpack_length_wraps_at_65536:
  "msgpack_encode_string (replicate 65536 CHR ''a'')
     = Inr ([0xda, 0x00, 0x00] @ encode_utf8 (replicate 65536 CHR ''a''))
   \<and> be_nat [0x00, 0x00] \<noteq> length (encode_utf8 (replicate 65536 CHR ''a''))
   \<and> msgpack_encode_map 65536 = Inr [0xde, 0x00, 0x00]
   \<and> int (be_nat [0x00, 0x00]) \<noteq> 65536"
  by (simp add: msgpack_encode_string_total string_tag_def be_nat_two
      msgpack_encode_map_def py_bytes_def and_255_int drop_bit_8_int)

section \<open>Closed forms of the two encoders\<close>

declare be_bytes.simps [simp del]

lemma be_bytes_1: "be_bytes (Suc 0) n = [word_of_nat n]"
  by (simp add: be_bytes.simps)

lemma be_bytes_2: "be_bytes 2 n = [word_of_nat (n div 256), word_of_nat n]"
  by (simp add: numeral_2_eq_2 be_bytes.simps)

lemma be_bytes_4:
  "be_bytes 4 n = [word_of_nat (n div 256 div 256 div 256), word_of_nat (n div 256 div 256),
                   word_of_nat (n div 256), word_of_nat n]"
proof -
  have "(4::nat) = Suc (Suc (Suc (Suc 0)))" by simp
  then show ?thesis by (simp only: be_bytes.simps append.simps)
qed

lemma byte_of_nat_mod: "(word_of_nat (n mod 256) :: byte) = word_of_nat n"
  by (simp add: word_of_nat_eq_iff take_bit_eq_mod)

lemma msgpack_encode_string_str_bytes: "msgpack_encode_string s = Inr (str_bytes s)"
  by (simp add: msgpack_encode_string_total str_bytes_def)

lemma pack_str_str_bytes: "length s \<le> 65535 \<Longrightarrow> pack_str s = Inr (str_bytes s)"
  by (simp add: pack_str_def str_bytes_def string_tag_def Let_def be_bytes_1 be_bytes_2
      byte_of_nat_mod)

lemma encode_fields_closed:
  "encode_fields result kvs = Inr (result @ concat (map pair_bytes kvs))"
  by (induction kvs arbitrary: result)
     (auto simp: msgpack_encode_string_str_bytes pair_bytes_def)

lemma pack_items_closed:
  "list_all (\<lambda>(k, v). length k \<le> 65535 \<and> length v \<le> 65535) items \<Longrightarrow>
   pack_items items = Inr (concat (map pair_bytes items))"
  by (induction items) (auto simp: pack_str_str_bytes pair_bytes_def)

lemma map_err_getitem:
  "list_all (\<lambda>k. map_of d k \<noteq> None) ks \<Longrightarrow>
   map_err (\<lambda>name. bind_err (getitem d name) (\<lambda>v. Inr (name, v))) ks
     = Inr (map (\<lambda>k. (k, the (map_of d k))) ks)"
  by (induction ks) (auto simp: getitem_def)

lemma header_20: "msgpack_encode_map 20 = Inr [0xde, 0x00, 0x14]"
  by (simp add: msgpack_encode_map_def py_bytes_def and_255_int drop_bit_8_int)

lemma simulate_closed:
  "list_all (\<lambda>k. map_of d k \<noteq> None) field_order \<Longrightarrow>
   simulate_c_msgpack_compression d
     = Inr ([0xde, 0x00, 0x14]
            @ concat (map (\<lambda>k. pair_bytes (k, the (map_of d k))) field_order))"
  by (simp add: simulate_c_msgpack_compression_def header_20 map_err_getitem
      encode_fields_closed comp_def)

lemma packb_closed_20:
  assumes "length d = 20"
    and "list_all (\<lambda>(k, v). length k \<le> 65535 \<and> length v \<le> 65535) d"
  shows "msgpack_packb d = Inr ([0xde, 0x00, 0x14] @ concat (map pair_bytes d))"
  using assms by (simp add: msgpack_packb_def pack_map_header_def be_bytes_2 pack_items_closed)

section \<open>The literal record of the parity check\<close>

lemma fields_of_test_data:
  "map (\<lambda>k. (k, the (map_of generate_test_data k))) field_order = generate_test_data"
  by code_simp

lemma test_data_present: "list_all (\<lambda>k. map_of generate_test_data k \<noteq> None) field_order"
  by code_simp

lemma test_data_short:
  "list_all (\<lambda>(k, v). length k \<le> 65535 \<and> length v \<le> 65535) generate_test_data"
  by (simp add: generate_test_data_def)

lemma length_generate_test_data: "length generate_test_data = 20"
  by (simp add: generate_test_data_def)

lemma length_str_bytes: "length s \<le> 31 \<Longrightarrow> length (str_bytes s) = Suc (length s)"
  by (simp add: str_bytes_def string_tag_def)

lemma length_test_data_body: "length (concat (map pair_bytes generate_test_data)) = 297"
  by (simp add: generate_test_data_def pair_bytes_def length_str_bytes)

text \<open>
  Claim C1. On the literal 20-field record of \<^verbatim>\<open>generate_test_data\<close> the simulated
  embedded encoder and the reference encoder both succeed and return the same bytes:
  the map header \<open>0xde 0x00 0x14\<close> followed, for each entry in the declared order, by the
  tagged key and the tagged value; the output is 300 bytes long.
\<close>

theorem parity_on_literal_record:
  "simulate_c_msgpack_compression generate_test_data = msgpack_compress generate_test_data
   \<and> msgpack_compress generate_test_data
       = Inr ([0xde, 0x00, 0x14] @ concat (map pair_bytes generate_test_data))
   \<and> length ([0xde, 0x00, 0x14] @ concat (map pair_bytes generate_test_data)) = 300"
proof -
  have "map (\<lambda>k. pair_bytes (k, the (map_of generate_test_data k))) field_order
      = map pair_bytes (map (\<lambda>k. (k, the (map_of generate_test_data k))) field_order)"
    by (simp add: comp_def)
  then have fields: "map (\<lambda>k. pair_bytes (k, the (map_of generate_test_data k))) field_order
      = map pair_bytes generate_test_data"
    by (simp only: fields_of_test_data)
  have sim: "simulate_c_msgpack_compression generate_test_data
      = Inr ([0xde, 0x00, 0x14] @ concat (map pair_bytes generate_test_data))"
    using simulate_closed [OF test_data_present] by (simp only: fields)
  have ref: "msgpack_compress generate_test_data
      = Inr ([0xde, 0x00, 0x14] @ concat (map pair_bytes generate_test_data))"
    unfolding msgpack_compress_def
    by (rule packb_closed_20 [OF length_generate_test_data test_data_short])
  show ?thesis
    using sim ref by (simp add: length_test_data_body)
qed


section \<open>Decoding what the encoders emit\<close>

lemma be_nat_snoc: "be_nat (bs @ [b]) = be_nat bs * 256 + unat b"
  by (simp add: be_nat_def)

lemma length_be_bytes [simp]: "length (be_bytes k n) = k"
  by (induction k arbitrary: n) (auto simp: be_bytes.simps)

lemma be_nat_be_bytes: "be_nat (be_bytes k n) = n mod 256 ^ k"
proof (induction k arbitrary: n)
  case 0
  show ?case by (simp add: be_nat_def be_bytes.simps)
next
  case (Suc k)
  have "be_nat (be_bytes (Suc k) n) = (n div 256) mod 256 ^ k * 256 + n mod 256"
    by (simp add: be_nat_snoc Suc unat_of_nat be_bytes.simps)
  also have "\<dots> = n mod 256 ^ Suc k"
    by (simp add: mod_mult2_eq mult.commute)
  finally show ?case .
qed

lemma decode_encode_utf8 [simp]: "decode_utf8 (encode_utf8 s) = s"
  by (simp add: decode_utf8_def encode_utf8_def comp_def unat_of_nat map_idI)

lemma take_str_exact:
  "take_str (length s) (encode_utf8 s @ rest) = Inr (s, rest)"
  by (simp add: take_str_def)

lemma fixstr_tag_range:
  assumes n: "n \<le> 31"
  shows "(0xa0 :: byte) \<le> word_of_nat (0xa0 + n) \<and> (word_of_nat (0xa0 + n) :: byte) \<le> 0xbf
     \<and> unat (word_of_nat (0xa0 + n) :: byte) - 0xa0 = n"
proof -
  have u: "unat (word_of_nat (0xa0 + n) :: byte) = 0xa0 + n"
    using n by (intro unat_byte_of_nat) simp
  show ?thesis
    using n u by (simp add: word_le_nat_alt del: of_nat_add)
qed

lemma unpack_str_fixstr:
  "0xa0 \<le> b \<and> b \<le> 0xbf \<and> unat b - 0xa0 = n \<Longrightarrow> unpack_str (b # bs) = take_str n bs"
  by auto

lemma take_drop_be_bytes [simp]:
  "take k (be_bytes k n @ bs) = be_bytes k n" "drop k (be_bytes k n @ bs) = bs"
  by simp_all

lemma unpack_str_sized:
  "unpack_str (0xd9 # be_bytes (Suc 0) n @ bs) = take_str (n mod 256) bs"
  "unpack_str (0xda # be_bytes 2 n @ bs) = take_str (n mod 65536) bs"
  "unpack_str (0xdb # be_bytes 4 n @ bs) = take_str (n mod 4294967296) bs"
  by (simp_all add: be_nat_be_bytes)

lemma unpack_pack_str:
  assumes "pack_str s = Inr bs"
  shows "unpack_str (bs @ rest) = Inr (s, rest)"
proof -
  let ?n = "length s"
  consider "?n \<le> 31" | "31 < ?n" "?n \<le> 0xff" | "0xff < ?n" "?n \<le> 0xffff"
    | "0xffff < ?n" "?n \<le> 0xffffffff" | "0xffffffff < ?n" by linarith
  then show ?thesis
  proof cases
    case 1
    then have bs: "bs = word_of_nat (0xa0 + ?n) # encode_utf8 s"
      using assms by (simp add: pack_str_def Let_def)
    show ?thesis
      unfolding bs append_Cons
      by (simp only: unpack_str_fixstr [OF fixstr_tag_range [OF 1]] take_str_exact)
  next
    case 2
    then have bs: "bs = 0xd9 # be_bytes 1 ?n @ encode_utf8 s"
      using assms by (simp add: pack_str_def Let_def)
    show ?thesis
      unfolding bs using 2 by (simp add: unpack_str_sized take_str_exact del: unpack_str.simps)
  next
    case 3
    then have bs: "bs = 0xda # be_bytes 2 ?n @ encode_utf8 s"
      using assms by (simp add: pack_str_def Let_def)
    show ?thesis
      unfolding bs using 3 by (simp add: unpack_str_sized take_str_exact del: unpack_str.simps)
  next
    case 4
    then have bs: "bs = 0xdb # be_bytes 4 ?n @ encode_utf8 s"
      using assms by (simp add: pack_str_def Let_def)
    show ?thesis
      unfolding bs using 4 by (simp add: unpack_str_sized take_str_exact del: unpack_str.simps)
  next
    case 5
    then show ?thesis using assms by (simp add: pack_str_def Let_def)
  qed
qed

lemma setitem_fresh: "k \<notin> fst ` set d \<Longrightarrow> setitem d k v = d @ [(k, v)]"
  by (induction d) auto

lemma pack_items_Cons_Inr:
  assumes "pack_items ((k, v) # ps) = Inr bs"
  obtains kb vb body where "pack_str k = Inr kb" "pack_str v = Inr vb"
    "pack_items ps = Inr body" "bs = kb @ vb @ body"
  using assms by (auto simp: bind_err_def split: sum.splits)

lemma unpack_pack_items:
  assumes "pack_items ps = Inr bs"
    and "distinct (map fst ps)"
    and "fst ` set ps \<inter> fst ` set acc = {}"
  shows "unpack_items (length ps) acc (bs @ rest) = Inr (acc @ ps, rest)"
  using assms
proof (induction ps arbitrary: acc bs)
  case Nil
  then show ?case by simp
next
  case (Cons p ps)
  obtain k v where p: "p = (k, v)" by (cases p)
  from Cons.prems(1) obtain kb vb body where
    kb: "pack_str k = Inr kb" and vb: "pack_str v = Inr vb"
    and body: "pack_items ps = Inr body" and bs: "bs = kb @ vb @ body"
    unfolding p by (rule pack_items_Cons_Inr)
  have fresh: "k \<notin> fst ` set acc" using Cons.prems(3) by (auto simp: p)
  have d: "distinct (map fst ps)" using Cons.prems(2) by simp
  have disj: "fst ` set ps \<inter> fst ` set (acc @ [(k, v)]) = {}"
    using Cons.prems(2,3) by (auto simp: p)
  have step1: "unpack_str (bs @ rest) = Inr (k, vb @ body @ rest)"
    using unpack_pack_str [OF kb, of "vb @ body @ rest"] by (simp add: bs)
  have step2: "unpack_str (vb @ body @ rest) = Inr (v, body @ rest)"
    using unpack_pack_str [OF vb, of "body @ rest"] by simp
  have "unpack_items (length (p # ps)) acc (bs @ rest)
      = unpack_items (length ps) (setitem acc k v) (body @ rest)"
    by (simp add: step1 step2)
  also have "\<dots> = Inr ((acc @ [(k, v)]) @ ps, rest)"
    unfolding setitem_fresh [OF fresh] by (rule Cons.IH [OF body d disj])
  finally show ?case by (simp add: p)
qed

lemma fixmap_tag_range:
  assumes n: "n \<le> 15"
  shows "(0x80 :: byte) \<le> word_of_nat (0x80 + n) \<and> (word_of_nat (0x80 + n) :: byte) \<le> 0x8f
     \<and> unat (word_of_nat (0x80 + n) :: byte) - 0x80 = n"
proof -
  have u: "unat (word_of_nat (0x80 + n) :: byte) = 0x80 + n"
    using n by (intro unat_byte_of_nat) simp
  show ?thesis
    using n u by (simp add: word_le_nat_alt del: of_nat_add)
qed

lemma unpack_map_header_fixmap:
  "0x80 \<le> b \<and> b \<le> 0x8f \<and> unat b - 0x80 = n \<Longrightarrow> unpack_map_header (b # bs) = Inr (n, bs)"
  by (auto simp: unpack_map_header_def)

lemma unpack_map_header_sized:
  "unpack_map_header (0xde # be_bytes 2 n @ bs) = Inr (n mod 65536, bs)"
  "unpack_map_header (0xdf # be_bytes 4 n @ bs) = Inr (n mod 4294967296, bs)"
  by (simp_all add: unpack_map_header_def be_nat_be_bytes)

lemma unpack_pack_map_header:
  assumes "pack_map_header n = Inr h"
  shows "unpack_map_header (h @ rest) = Inr (n, rest)"
proof -
  consider "n \<le> 15" | "15 < n" "n \<le> 0xffff" | "0xffff < n" "n \<le> 0xffffffff"
    | "0xffffffff < n" by linarith
  then show ?thesis
  proof cases
    case 1
    then have h: "h = [word_of_nat (0x80 + n)]"
      using assms by (simp add: pack_map_header_def)
    show ?thesis unfolding h append_Cons append_Nil
      by (rule unpack_map_header_fixmap [OF fixmap_tag_range [OF 1]])
  next
    case 2
    then have h: "h = 0xde # be_bytes 2 n" using assms by (simp add: pack_map_header_def)
    show ?thesis unfolding h using 2 by (simp add: unpack_map_header_sized)
  next
    case 3
    then have h: "h = 0xdf # be_bytes 4 n" using assms by (simp add: pack_map_header_def)
    show ?thesis unfolding h using 3 by (simp add: unpack_map_header_sized)
  next
    case 4
    then show ?thesis using assms by (simp add: pack_map_header_def)
  qed
qed

lemma unpackb_packb:
  assumes "msgpack_packb d = Inr bs" and "distinct (map fst d)"
  shows "msgpack_unpackb bs = Inr d"
proof -
  from assms(1) obtain h body where h: "pack_map_header (length d) = Inr h"
    and body: "pack_items d = Inr body" and bs: "bs = h @ body"
    by (auto simp: msgpack_packb_def bind_err_def split: sum.splits)
  have 1: "unpack_map_header (h @ body) = Inr (length d, body)"
    by (rule unpack_pack_map_header [OF h])
  have 2: "unpack_items (length d) [] (body @ []) = Inr ([] @ d, [])"
    by (rule unpack_pack_items [OF body assms(2)]) simp
  show ?thesis using 1 2 by (simp add: msgpack_unpackb_def bs)
qed

lemma pack_str_ok: "length s \<le> 0xffffffff \<Longrightarrow> \<exists>bs. pack_str s = Inr bs"
  by (simp add: pack_str_def Let_def)

lemma pack_items_ok:
  "list_all (\<lambda>(k, v). length k \<le> 0xffffffff \<and> length v \<le> 0xffffffff) ps
     \<Longrightarrow> \<exists>bs. pack_items ps = Inr bs"
proof (induction ps)
  case Nil
  then show ?case by simp
next
  case (Cons p ps)
  obtain k v where p: "p = (k, v)" by (cases p)
  from Cons.prems obtain kb vb where "pack_str k = Inr kb" "pack_str v = Inr vb"
    using pack_str_ok [of k] pack_str_ok [of v] by (auto simp: p)
  moreover from Cons obtain body where "pack_items ps = Inr body" by auto
  ultimately show ?case by (simp add: p)
qed

lemma packb_ok:
  assumes "length d \<le> 0xffffffff"
    and "list_all (\<lambda>(k, v). length k \<le> 0xffffffff \<and> length v \<le> 0xffffffff) d"
  shows "\<exists>bs. msgpack_packb d = Inr bs"
proof -
  obtain body where "pack_items d = Inr body" using pack_items_ok [OF assms(2)] by auto
  moreover have "\<exists>h. pack_map_header (length d) = Inr h"
    using assms(1) by (simp add: pack_map_header_def)
  then obtain h where "pack_map_header (length d) = Inr h" by blast
  ultimately show ?thesis by (simp add: msgpack_packb_def)
qed

section \<open>Field order\<close>

lemma distinct_field_order: "distinct field_order"
  by code_simp

lemma length_field_order: "length field_order = 20"
  by (simp add: field_order_def)

lemma field_names_short: "list_all (\<lambda>k. length k \<le> 31) field_order"
  by (simp add: field_order_def)

lemma map_err_cong:
  "(\<And>x. x \<in> set xs \<Longrightarrow> f x = g x) \<Longrightarrow> map_err f xs = map_err g xs"
  by (induction xs) auto

lemma simulate_depends_on_fields:
  assumes "\<And>k. k \<in> set field_order \<Longrightarrow> map_of d1 k = map_of d2 k"
  shows "simulate_c_msgpack_compression d1 = simulate_c_msgpack_compression d2"
proof -
  have "map_err (\<lambda>name. bind_err (getitem d1 name) (\<lambda>v. Inr (name, v))) field_order
      = map_err (\<lambda>name. bind_err (getitem d2 name) (\<lambda>v. Inr (name, v))) field_order"
    by (rule map_err_cong) (simp add: getitem_def assms)
  then show ?thesis by (simp add: simulate_c_msgpack_compression_def)
qed

lemma map_of_rev_distinct: "distinct (map fst d) \<Longrightarrow> map_of (rev d) = map_of d"
  by (subst map_of_inject_set) (simp_all add: rev_map [symmetric])

lemma distinct_test_data_keys: "distinct (map fst generate_test_data)"
  by code_simp

lemma rev_differs:
  "msgpack_compress (rev generate_test_data) \<noteq> msgpack_compress generate_test_data"
proof -
  have a: "\<exists>xs. concat (map pair_bytes (rev generate_test_data)) = 0xa4 # xs"
    by (simp add: generate_test_data_def pair_bytes_def str_bytes_def string_tag_def)
  have b: "\<exists>xs. concat (map pair_bytes generate_test_data) = 0xa6 # xs"
    by (simp add: generate_test_data_def pair_bytes_def str_bytes_def string_tag_def)
  have r: "msgpack_compress (rev generate_test_data)
      = Inr ([0xde, 0x00, 0x14] @ concat (map pair_bytes (rev generate_test_data)))"
    unfolding msgpack_compress_def
    using length_generate_test_data test_data_short by (intro packb_closed_20) simp_all
  have g: "msgpack_compress generate_test_data
      = Inr ([0xde, 0x00, 0x14] @ concat (map pair_bytes generate_test_data))"
    unfolding msgpack_compress_def
    by (rule packb_closed_20 [OF length_generate_test_data test_data_short])
  show ?thesis unfolding r g using a b by auto
qed

lemma pair_bytes_pair: "pair_bytes (k, v) = str_bytes k @ str_bytes v"
  by (simp add: pair_bytes_def)

lemma alist_of_lookups:
  assumes "distinct (map fst d)"
  shows "map (\<lambda>k. (k, the (map_of d k))) (map fst d) = d"
proof -
  have "map (\<lambda>p. (fst p, the (map_of d (fst p)))) d = d"
  proof (rule map_idI)
    fix p assume "p \<in> set d"
    then have "map_of d (fst p) = Some (snd p)"
      by (intro map_of_is_SomeI [OF assms]) simp
    then show "(fst p, the (map_of d (fst p))) = p" by simp
  qed
  then show ?thesis by (simp add: comp_def)
qed

lemma keys_of_test_data: "map fst generate_test_data = field_order"
  by (simp add: generate_test_data_def field_order_def)

lemma pack_items_in_order:
  "pack_items d = Inr body \<Longrightarrow>
   body = concat (map (\<lambda>(k, v). projr (pack_str k) @ projr (pack_str v)) d)"
proof (induction d arbitrary: body)
  case Nil
  then show ?case by simp
next
  case (Cons p ps)
  obtain k v where p: "p = (k, v)" by (cases p)
  from Cons.prems obtain kb vb rest where
    kb: "pack_str k = Inr kb" and vb: "pack_str v = Inr vb"
    and rest: "pack_items ps = Inr rest" and body: "body = kb @ vb @ rest"
    unfolding p by (rule pack_items_Cons_Inr)
  show ?case using Cons.IH [OF rest] by (simp add: p kb vb body)
qed

lemma msgpack_compress_in_order:
  assumes "msgpack_compress d = Inr bs"
  shows "\<exists>h. pack_map_header (length d) = Inr h
           \<and> bs = h @ concat (map (\<lambda>(k, v). projr (pack_str k) @ projr (pack_str v)) d)"
proof -
  from assms obtain h body where h: "pack_map_header (length d) = Inr h"
    and body: "pack_items d = Inr body" and bs: "bs = h @ body"
    by (auto simp: msgpack_compress_def msgpack_packb_def bind_err_def split: sum.splits)
  show ?thesis using h pack_items_in_order [OF body] bs by simp
qed

text \<open>
  Claim C8, as amended. For every input dict that contains the 20 required fields,
  \<^verbatim>\<open>simulate_c_msgpack_compression\<close> emits the keys in the fixed declared order, each
  followed by the value the dict maps it to, whatever the dict's insertion order: two
  dicts with the same field-to-value mapping encode to identical bytes under it. The
  reference encoder \<^verbatim>\<open>msgpack_compress\<close>, whenever it returns, emits the map header
  followed by the entries (tagged key, then tagged value) in the dict's own insertion
  order.
\<close>

theorem key_order_of_the_encoders:
  assumes same: "map_of d1 = map_of d2"
    and present: "list_all (\<lambda>k. map_of d1 k \<noteq> None) field_order"
  shows "simulate_c_msgpack_compression d1
           = Inr ([0xde, 0x00, 0x14]
                  @ concat (map (\<lambda>k. str_bytes k @ str_bytes (the (map_of d1 k))) field_order))
       \<and> simulate_c_msgpack_compression d2 = simulate_c_msgpack_compression d1
       \<and> (\<forall>bs. msgpack_compress d1 = Inr bs \<longrightarrow>
             (\<exists>h. pack_map_header (length d1) = Inr h
                \<and> bs = h @ concat (map (\<lambda>(k, v). projr (pack_str k) @ projr (pack_str v)) d1)))"
proof -
  have a: "simulate_c_msgpack_compression d1
           = Inr ([0xde, 0x00, 0x14]
                  @ concat (map (\<lambda>k. str_bytes k @ str_bytes (the (map_of d1 k))) field_order))"
    using simulate_closed [OF present] by (simp add: pair_bytes_pair)
  have b: "simulate_c_msgpack_compression d2 = simulate_c_msgpack_compression d1"
    by (rule simulate_depends_on_fields) (simp add: same)
  show ?thesis using a b msgpack_compress_in_order [of d1] by blast
qed

text \<open>The literal record and the same record inserted in reverse order.\<close>

theorem key_order_of_the_encoders_witness:
  "map_of generate_test_data = map_of (rev generate_test_data)
   \<and> simulate_c_msgpack_compression generate_test_data
       = Inr ([0xde, 0x00, 0x14]
              @ concat (map (\<lambda>k. str_bytes k @ str_bytes (the (map_of generate_test_data k)))
                  field_order))
   \<and> simulate_c_msgpack_compression (rev generate_test_data)
       = simulate_c_msgpack_compression generate_test_data
   \<and> (\<exists>h. pack_map_header (length generate_test_data) = Inr h
          \<and> [0xde, 0x00, 0x14] @ concat (map pair_bytes generate_test_data)
              = h @ concat (map (\<lambda>(k, v). projr (pack_str k) @ projr (pack_str v))
                             generate_test_data))"
proof -
  have same: "map_of generate_test_data = map_of (rev generate_test_data)"
    by (simp only: map_of_rev_distinct [OF distinct_test_data_keys])
  have enc: "msgpack_compress generate_test_data
      = Inr ([0xde, 0x00, 0x14] @ concat (map pair_bytes generate_test_data))"
    unfolding msgpack_compress_def
    by (rule packb_closed_20 [OF length_generate_test_data test_data_short])
  show ?thesis
    using key_order_of_the_encoders [OF same test_data_present] same enc
    by blast
qed

text \<open>
  Claim C8 as stated fails for the reference encoder: the literal record and the same
  record inserted in reverse order are the same mapping, and \<^verbatim>\<open>msgpack_compress\<close> encodes
  them to different bytes (the first key on the wire is \<open>hdop\<close> instead of \<open>msisdn\<close>).
\<close>

theorem msgpack_compress_follows_insertion_order:
  "map_of (rev generate_test_data) = map_of generate_test_data
   \<and> msgpack_compress (rev generate_test_data) \<noteq> msgpack_compress generate_test_data"
  using map_of_rev_distinct [OF distinct_test_data_keys] rev_differs by simp

section \<open>Round trip\<close>


lemma valid_record_length:
  assumes "valid_record r" shows "length r = 20"
proof -
  have d: "distinct (map fst r)" and s: "set (map fst r) = set field_order"
    using assms by (simp_all add: valid_record_def)
  have "length (map fst r) = card (set (map fst r))"
    by (rule distinct_card [OF d, symmetric])
  also have "\<dots> = card (set field_order)" by (simp only: s)
  also have "\<dots> = 20" by (simp only: distinct_card [OF distinct_field_order] length_field_order)
  finally show ?thesis by simp
qed

lemma valid_record_present:
  assumes "valid_record r" shows "list_all (\<lambda>k. map_of r k \<noteq> None) field_order"
proof -
  have "\<forall>k \<in> set field_order. map_of r k \<noteq> None"
    using assms by (auto simp: valid_record_def map_of_eq_None_iff)
  then show ?thesis by (simp add: list_all_iff)
qed

lemma valid_record_keys_short:
  assumes "valid_record r" and "(k, v) \<in> set r" shows "length k \<le> 31"
proof -
  have "k \<in> set field_order" using assms by (force simp: valid_record_def)
  then show ?thesis using field_names_short by (simp add: list_all_iff)
qed

text \<open>
  Claim C9, as amended. For every valid telemetry record \<open>r\<close> (exactly the 20 fields,
  string values): when every value has at most \<open>2^32 - 1\<close> UTF-8 bytes, decoding what
  \<^verbatim>\<open>msgpack_compress\<close> returns for \<open>r\<close> gives \<open>r\<close> itself; when every value has at most
  65535 UTF-8 bytes, decoding what \<^verbatim>\<open>simulate_c_msgpack_compression\<close> returns for \<open>r\<close>
  gives a dict that maps every field to the same string as \<open>r\<close>.
\<close>

theorem msgpack_round_trip:
  assumes valid: "valid_record r"
  shows "(list_all (\<lambda>(k, v). length (encode_utf8 v) \<le> 0xffffffff) r
            \<longrightarrow> bind_err (msgpack_compress r) msgpack_unpackb = Inr r)
       \<and> (list_all (\<lambda>(k, v). length (encode_utf8 v) \<le> 0xffff) r
            \<longrightarrow> (\<exists>r'. bind_err (simulate_c_msgpack_compression r) msgpack_unpackb = Inr r'
                      \<and> map_of r' = map_of r))"
proof -
  have dist: "distinct (map fst r)" using valid by (simp add: valid_record_def)
  have len: "length r = 20" by (rule valid_record_length [OF valid])
  have ref: "bind_err (msgpack_compress r) msgpack_unpackb = Inr r"
    if big: "list_all (\<lambda>(k, v). length (encode_utf8 v) \<le> 0xffffffff) r"
  proof -
    have "list_all (\<lambda>(k, v). length k \<le> 0xffffffff \<and> length v \<le> 0xffffffff) r"
      using big valid_record_keys_short [OF valid] by (fastforce simp: list_all_iff)
    then obtain bs where bs: "msgpack_packb r = Inr bs"
      using packb_ok [of r] len by auto
    show ?thesis
      using unpackb_packb [OF bs dist] by (simp add: msgpack_compress_def bs)
  qed
  have sim: "\<exists>r'. bind_err (simulate_c_msgpack_compression r) msgpack_unpackb = Inr r'
                \<and> map_of r' = map_of r"
    if short: "list_all (\<lambda>(k, v). length (encode_utf8 v) \<le> 0xffff) r"
  proof -
    let ?r' = "map (\<lambda>k. (k, the (map_of r k))) field_order"
    have keys: "map fst ?r' = field_order" by (simp add: comp_def)
    have d': "distinct (map fst ?r')" by (simp only: keys distinct_field_order)
    have l': "length ?r' = 20" by (simp add: length_field_order)
    have val: "length (the (map_of r k)) \<le> 65535" if "k \<in> set field_order" for k
    proof -
      from that obtain v where v: "map_of r k = Some v"
        using valid_record_present [OF valid] by (auto simp: list_all_iff)
      then have "(k, v) \<in> set r" by (rule map_of_SomeD)
      then show ?thesis using short v by (auto simp: list_all_iff)
    qed
    have sh: "list_all (\<lambda>(k, v). length k \<le> 65535 \<and> length v \<le> 65535) ?r'"
      using val field_names_short by (fastforce simp: list_all_iff)
    have "concat (map pair_bytes ?r')
        = concat (map (\<lambda>k. pair_bytes (k, the (map_of r k))) field_order)"
      by (simp add: comp_def)
    then have "simulate_c_msgpack_compression r = msgpack_packb ?r'"
      using simulate_closed [OF valid_record_present [OF valid]] packb_closed_20 [OF l' sh]
      by simp
    moreover obtain bs where bs: "msgpack_packb ?r' = Inr bs"
      using packb_closed_20 [OF l' sh] by simp
    ultimately have "bind_err (simulate_c_msgpack_compression r) msgpack_unpackb = Inr ?r'"
      using unpackb_packb [OF bs d'] by simp
    moreover have "map_of ?r' = map_of r"
    proof
      fix k
      show "map_of ?r' k = map_of r k"
      proof (cases "k \<in> set field_order")
        case True
        then obtain v where "map_of r k = Some v"
          using valid_record_present [OF valid] by (auto simp: list_all_iff)
        then show ?thesis using True by (simp add: map_of_map_restrict)
      next
        case False
        then have "k \<notin> fst ` set r" using valid by (simp add: valid_record_def)
        then have "map_of r k = None" by (simp add: map_of_eq_None_iff)
        then show ?thesis using False by (simp add: map_of_map_restrict)
      qed
    qed
    ultimately show ?thesis by blast
  qed
  show ?thesis using ref sim by blast
qed

theorem msgpack_round_trip_witness:
  "valid_record generate_test_data
   \<and> bind_err (msgpack_compress generate_test_data) msgpack_unpackb = Inr generate_test_data
   \<and> (\<exists>r'. bind_err (simulate_c_msgpack_compression generate_test_data) msgpack_unpackb = Inr r'
          \<and> map_of r' = map_of generate_test_data)"
proof -
  have valid: "valid_record generate_test_data"
    by (simp add: valid_record_def keys_of_test_data distinct_field_order)
  have short: "list_all (\<lambda>(k, v). length (encode_utf8 v) \<le> 0xffff) generate_test_data"
    by (simp add: generate_test_data_def)
  have big: "list_all (\<lambda>(k, v). length (encode_utf8 v) \<le> 0xffffffff) generate_test_data"
    by (simp add: generate_test_data_def)
  show ?thesis
    using msgpack_round_trip [OF valid] valid short big by blast
qed

lemma keys_of_oversized_record: "map fst oversized_record = field_order"
  by (simp add: oversized_record_def generate_test_data_def field_order_def)

lemma valid_oversized_record: "valid_record oversized_record"
  by (simp add: valid_record_def keys_of_oversized_record distinct_field_order)

lemma big_value_bytes:
  "str_bytes (replicate 65536 CHR ''a'') = [0xda, 0x00, 0x00] @ 0x61 # replicate 65535 0x61"
proof -
  have "(65536::nat) = Suc 65535" by simp
  then have "replicate 65536 (0x61::byte) = 0x61 # replicate 65535 0x61"
    by (simp only: replicate_Suc)
  then show ?thesis
    by (simp add: str_bytes_def string_tag_def encode_utf8_def)
qed

lemma simulate_oversized_record:
  "simulate_c_msgpack_compression oversized_record
     = Inr ([0xde, 0x00, 0x14] @ str_bytes ''msisdn'' @ [0xda, 0x00, 0x00]
            @ 0x61 # replicate 65535 0x61 @ concat (map pair_bytes (tl generate_test_data)))"
proof -
  have dist: "distinct (map fst oversized_record)"
    using valid_oversized_record by (simp add: valid_record_def)
  have "map (\<lambda>k. (k, the (map_of oversized_record k))) (map fst oversized_record)
      = oversized_record"
    by (rule alist_of_lookups [OF dist])
  then have e: "map (\<lambda>k. (k, the (map_of oversized_record k))) field_order = oversized_record"
    by (simp only: keys_of_oversized_record)
  have "map (\<lambda>k. pair_bytes (k, the (map_of oversized_record k))) field_order
      = map pair_bytes (map (\<lambda>k. (k, the (map_of oversized_record k))) field_order)"
    by (simp add: comp_def)
  then have m: "map (\<lambda>k. pair_bytes (k, the (map_of oversized_record k))) field_order
      = map pair_bytes oversized_record"
    by (simp only: e)
  have c: "concat (map pair_bytes oversized_record)
      = str_bytes ''msisdn'' @ [0xda, 0x00, 0x00] @ 0x61 # replicate 65535 0x61
        @ concat (map pair_bytes (tl generate_test_data))"
    by (simp add: oversized_record_def pair_bytes_pair big_value_bytes)
  show ?thesis
    using simulate_closed [OF valid_record_present [OF valid_oversized_record]]
    by (simp only: m c append_assoc)
qed

lemma unpack_str_not_a_string: "unpack_str (0x61 # bs) = Inl ValueError"
  by simp

lemma unpack_str_empty_str16: "unpack_str ([0xda, 0x00, 0x00] @ bs) = Inr ([], bs)"
  by (simp add: take_str_def be_nat_def decode_utf8_def)

lemma unpack_str_msisdn: "unpack_str (str_bytes ''msisdn'' @ bs) = Inr (''msisdn'', bs)"
  by (rule unpack_pack_str) (simp add: pack_str_str_bytes)

text \<open>
  Claim C9 as stated fails for a valid record with a value of 65536 bytes: the simulated
  encoder writes the length bytes \<open>0x00 0x00\<close>, the decoder reads an empty string and then
  meets the first byte of the value where the next key should start.
\<close>

theorem simulated_encoding_of_64k_value_does_not_decode:
  "valid_record oversized_record
   \<and> bind_err (simulate_c_msgpack_compression oversized_record) msgpack_unpackb
       = Inl ValueError"
proof -
  let ?rest = "concat (map pair_bytes (tl generate_test_data))"
  let ?body = "str_bytes ''msisdn'' @ [0xda, 0x00, 0x00] @ 0x61 # replicate 65535 0x61 @ ?rest"
  have hdr: "unpack_map_header ([0xde, 0x00, 0x14] @ ?body) = Inr (20, ?body)"
    by (simp add: unpack_map_header_def be_nat_def)
  have "(20::nat) = Suc 19" by simp
  then have "unpack_items 20 [] ?body
      = bind_err (unpack_str ?body) (\<lambda>(k, bs1).
          bind_err (unpack_str bs1) (\<lambda>(v, bs2). unpack_items 19 (setitem [] k v) bs2))"
    by (simp only: unpack_items.simps)
  also have "\<dots> = unpack_items 19 (setitem [] ''msisdn'' [])
                     (0x61 # replicate 65535 0x61 @ ?rest)"
    by (simp only: unpack_str_msisdn unpack_str_empty_str16 bind_err_Inr prod.case)
  also have "\<dots> = Inl ValueError"
  proof -
    have "(19::nat) = Suc 18" by simp
    then show ?thesis
      by (simp only: unpack_items.simps unpack_str_not_a_string bind_err_Inl)
  qed
  finally have items: "unpack_items 20 [] ?body = Inl ValueError" .
  have "msgpack_unpackb ([0xde, 0x00, 0x14] @ ?body) = Inl ValueError"
    by (simp only: msgpack_unpackb_def hdr items bind_err_Inr bind_err_Inl prod.case)
  then show ?thesis
    using valid_oversized_record by (simp only: simulate_oversized_record bind_err_Inr simp_thms)
qed

section \<open>Lists of fallible conversions\<close>

lemma map_err_Inr_iff:
  "map_err f xs = Inr ys \<longleftrightarrow> list_all2 (\<lambda>x y. f x = Inr y) xs ys"
proof (induction xs arbitrary: ys)
  case Nil
  show ?case by auto
next
  case (Cons x xs)
  show ?case
  proof (cases "f x")
    case (Inl e)
    then show ?thesis by (auto simp: list_all2_Cons1)
  next
    case fx: (Inr y)
    show ?thesis
    proof (cases "map_err f xs")
      case (Inl e)
      then show ?thesis using Cons [symmetric] fx by (auto simp: list_all2_Cons1)
    next
      case (Inr zs)
      then show ?thesis using Cons [symmetric] fx by (auto simp: list_all2_Cons1)
    qed
  qed
qed

section \<open>The literal record, field by field\<close>

lemma test_data_lookup:
  "map_of generate_test_data ''msisdn'' = Some ''393600504920''"
  "map_of generate_test_data ''iso6346'' = Some ''LMCU0954822''"
  "map_of generate_test_data ''time'' = Some ''300725 221117.8''"
  "map_of generate_test_data ''rssi'' = Some ''21''"
  "map_of generate_test_data ''cgi'' = Some ''999-01-1-31D41''"
  "map_of generate_test_data ''ble-m'' = Some ''1''"
  "map_of generate_test_data ''bat-soc'' = Some ''93''"
  "map_of generate_test_data ''acc'' = Some ''-974.0700 -25.1270 -45.6744''"
  "map_of generate_test_data ''temperature'' = Some ''18.32''"
  "map_of generate_test_data ''humidity'' = Some ''75.44''"
  "map_of generate_test_data ''pressure'' = Some ''1016.7932''"
  "map_of generate_test_data ''door'' = Some ''D''"
  "map_of generate_test_data ''gnss'' = Some ''1''"
  "map_of generate_test_data ''latitude'' = Some ''31.9277''"
  "map_of generate_test_data ''longitude'' = Some ''28.6378''"
  "map_of generate_test_data ''altitude'' = Some ''56.62''"
  "map_of generate_test_data ''speed'' = Some ''0.8''"
  "map_of generate_test_data ''heading'' = Some ''302.07''"
  "map_of generate_test_data ''nsat'' = Some ''11''"
  "map_of generate_test_data ''hdop'' = Some ''5.0''"
  by (simp_all add: generate_test_data_def)

lemma test_data_ints:
  "py_int ''21'' = Some 21" "py_int ''1'' = Some 1" "py_int ''93'' = Some 93"
  "py_int ''11'' = Some 11"
  by code_simp+

lemma test_data_floats:
  "py_float ''18.32'' = Some (Finite False (458 / 25))"
  "py_float ''75.44'' = Some (Finite False (1886 / 25))"
  "py_float ''1016.7932'' = Some (Finite False (2541983 / 2500))"
  "py_float ''31.9277'' = Some (Finite False (319277 / 10000))"
  "py_float ''28.6378'' = Some (Finite False (143189 / 5000))"
  "py_float ''56.62'' = Some (Finite False (2831 / 50))"
  "py_float ''0.8'' = Some (Finite False (4 / 5))"
  "py_float ''302.07'' = Some (Finite False (30207 / 100))"
  "py_float ''5.0'' = Some (Finite False 5)"
  "py_float ''-974.0700'' = Some (Finite True (97407 / 100))"
  "py_float ''-25.1270'' = Some (Finite True (25127 / 1000))"
  "py_float ''-45.6744'' = Some (Finite True (57093 / 1250))"
  by (simp_all add: py_float_def py_strip_def is_space_def signed_def lower_def mantissa_def
      digitpart_def is_digit_def digit_val_def exponent_def)

lemma test_data_acc_tokens:
  "findall_numbers ''-974.0700 -25.1270 -45.6744'' = [''-974.0700'', ''-25.1270'', ''-45.6744'']"
  "py_split ''-974.0700 -25.1270 -45.6744'' = [''-974.0700'', ''-25.1270'', ''-45.6744'']"
  by code_simp+


lemma pb_field_Inr:
  "map_of d key = Some s \<Longrightarrow> conv s = Inr v \<Longrightarrow> pb_field d conv (attr, key) = Inr (attr, v)"
  by (simp add: pb_field_def getitem_def)

lemma json_to_protobuf_test_data:
  "json_to_protobuf generate_test_data =
     Inr [(''msisdn'', PyStr ''393600504920''), (''iso6346'', PyStr ''LMCU0954822''),
          (''time'', PyStr ''300725 221117.8''), (''cgi'', PyStr ''999-01-1-31D41''),
          (''door'', PyStr ''D''),
          (''rssi'', PyInt 21), (''ble_m'', PyInt 1), (''bat_soc'', PyInt 93),
          (''gnss'', PyInt 1), (''nsat'', PyInt 11),
          (''acc_x'', PyFloat (Finite True (97407 / 100))),
          (''acc_y'', PyFloat (Finite True (25127 / 1000))),
          (''acc_z'', PyFloat (Finite True (57093 / 1250))),
          (''temperature'', PyFloat (Finite False (458 / 25))),
          (''humidity'', PyFloat (Finite False (1886 / 25))),
          (''pressure'', PyFloat (Finite False (2541983 / 2500))),
          (''latitude'', PyFloat (Finite False (319277 / 10000))),
          (''longitude'', PyFloat (Finite False (143189 / 5000))),
          (''altitude'', PyFloat (Finite False (2831 / 50))),
          (''speed'', PyFloat (Finite False (4 / 5))),
          (''heading'', PyFloat (Finite False (30207 / 100))),
          (''hdop'', PyFloat (Finite False 5))]"
proof -
  have strs: "map_err (pb_field generate_test_data (\<lambda>s. Inr (PyStr s)))
                 [(''msisdn'', ''msisdn''), (''iso6346'', ''iso6346''), (''time'', ''time''),
                  (''cgi'', ''cgi''), (''door'', ''door'')]
      = Inr [(''msisdn'', PyStr ''393600504920''), (''iso6346'', PyStr ''LMCU0954822''),
          (''time'', PyStr ''300725 221117.8''), (''cgi'', PyStr ''999-01-1-31D41''),
          (''door'', PyStr ''D'')]"
    unfolding map_err_Inr_iff by (simp add: pb_field_Inr test_data_lookup)
  have ints: "map_err (pb_field generate_test_data to_int)
                 [(''rssi'', ''rssi''), (''ble_m'', ''ble-m''), (''bat_soc'', ''bat-soc''),
                  (''gnss'', ''gnss''), (''nsat'', ''nsat'')]
      = Inr [(''rssi'', PyInt 21), (''ble_m'', PyInt 1), (''bat_soc'', PyInt 93),
          (''gnss'', PyInt 1), (''nsat'', PyInt 11)]"
    unfolding map_err_Inr_iff
    by (simp add: pb_field_Inr test_data_lookup to_int_def test_data_ints)
  have acc: "bind_err (getitem generate_test_data ''acc'') parse_acc
      = Inr [PyFloat (Finite True (97407 / 100)), PyFloat (Finite True (25127 / 1000)),
             PyFloat (Finite True (57093 / 1250))]"
    by (simp add: getitem_def test_data_lookup parse_acc_def test_data_acc_tokens
        to_float_def test_data_floats)
  have floats: "map_err (pb_field generate_test_data to_float)
                 [(''temperature'', ''temperature''), (''humidity'', ''humidity''),
                  (''pressure'', ''pressure''), (''latitude'', ''latitude''),
                  (''longitude'', ''longitude''), (''altitude'', ''altitude''),
                  (''speed'', ''speed''), (''heading'', ''heading''), (''hdop'', ''hdop'')]
      = Inr [(''temperature'', PyFloat (Finite False (458 / 25))),
          (''humidity'', PyFloat (Finite False (1886 / 25))),
          (''pressure'', PyFloat (Finite False (2541983 / 2500))),
          (''latitude'', PyFloat (Finite False (319277 / 10000))),
          (''longitude'', PyFloat (Finite False (143189 / 5000))),
          (''altitude'', PyFloat (Finite False (2831 / 50))),
          (''speed'', PyFloat (Finite False (4 / 5))),
          (''heading'', PyFloat (Finite False (30207 / 100))),
          (''hdop'', PyFloat (Finite False 5))]"
    unfolding map_err_Inr_iff
    by (simp add: pb_field_Inr test_data_lookup to_float_def test_data_floats)
  show ?thesis
    unfolding json_to_protobuf_def strs ints acc floats by simp
qed

section \<open>The size budget of the positional-schema encoder\<close>

text \<open>
  Claim C3. When the record converts to a message and the message serialises to \<open>raw\<close>,
  \<^verbatim>\<open>serialize\<close> returns \<open>raw\<close> exactly when \<open>length raw < 158\<close>; when \<open>length raw \<ge> 158\<close> it
  raises the error that carries the actual size and the limit 158; and whatever it
  returns is \<open>raw\<close> itself, never a shortened or otherwise changed payload.
\<close>

theorem serialize_size_budget:
  assumes pb: "json_to_protobuf data = Inr pb" and raw: "SerializeToString pb = Inr raw"
  shows "(serialize SerializeToString data = Inr raw \<longleftrightarrow> length raw < 158)
       \<and> (length raw \<ge> 158 \<longrightarrow>
            serialize SerializeToString data = Inl (PayloadTooLarge (length raw) 158))
       \<and> (\<forall>out. serialize SerializeToString data = Inr out \<longrightarrow> out = raw)"
  by (simp add: serialize_def pb raw MAX_PAYLOAD_SIZE_def)

text \<open>
  The literal record with a serialiser that yields 157 bytes and with one that yields
  158 bytes.
\<close>

theorem serialize_size_budget_witness:
  "serialize (\<lambda>pb. Inr (replicate 157 0)) generate_test_data = Inr (replicate 157 0)
   \<and> serialize (\<lambda>pb. Inr (replicate 158 0)) generate_test_data
       = Inl (PayloadTooLarge 158 158)"
  using serialize_size_budget [OF json_to_protobuf_test_data,
          of "\<lambda>pb. Inr (replicate 157 0)" "replicate 157 0"]
        serialize_size_budget [OF json_to_protobuf_test_data,
          of "\<lambda>pb. Inr (replicate 158 0)" "replicate 158 0"]
  by simp

section \<open>What the Compact Struct conversion returns\<close>

lemma bind_err_Inr_iff:
  "bind_err m f = Inr y \<longleftrightarrow> (\<exists>x. m = Inr x \<and> f x = Inr y)"
  by (cases m) auto

lemma to_int_Inr_iff: "to_int s = Inr v \<longleftrightarrow> py_int s \<noteq> None \<and> v = PyInt (the (py_int s))"
  by (auto simp: to_int_def split: option.splits)

lemma to_float_Inr_iff:
  "to_float s = Inr v \<longleftrightarrow> py_float s \<noteq> None \<and> v = PyFloat (the (py_float s))"
  by (auto simp: to_float_def split: option.splits)

lemma getitem_Inr_iff: "getitem d k = Inr s \<longleftrightarrow> map_of d k \<noteq> None \<and> s = field_text d k"
  by (auto simp: getitem_def field_text_def split: option.splits)

lemma map_err_to_float_iff:
  "map_err to_float ts = Inr xs \<longleftrightarrow>
     list_all (\<lambda>t. py_float t \<noteq> None) ts \<and> xs = map (\<lambda>t. PyFloat (the (py_float t))) ts"
  unfolding map_err_Inr_iff
  by (induction ts arbitrary: xs) (auto simp: list_all2_Cons1 to_float_Inr_iff)

lemma typed_entry_iff:
  "typed_entry d (k, Keep) = Inr y \<longleftrightarrow> map_of d k \<noteq> None \<and> y = (k, PyStr (field_text d k))"
  "typed_entry d (k, ToInt) = Inr y \<longleftrightarrow>
     map_of d k \<noteq> None \<and> py_int (field_text d k) \<noteq> None \<and> y = (k, PyInt (field_int d k))"
  "typed_entry d (k, ToFloat) = Inr y \<longleftrightarrow>
     map_of d k \<noteq> None \<and> py_float (field_text d k) \<noteq> None \<and> y = (k, PyFloat (field_float d k))"
  "typed_entry d (k, ToFloats) = Inr y \<longleftrightarrow>
     map_of d k \<noteq> None \<and> list_all (\<lambda>t. py_float t \<noteq> None) (py_split (field_text d k))
     \<and> y = (k, PyList (map (\<lambda>t. PyFloat (the (py_float t))) (py_split (field_text d k))))"
  by (auto simp: typed_entry_def bind_err_Inr_iff getitem_Inr_iff to_int_Inr_iff
      to_float_Inr_iff map_err_to_float_iff field_int_def field_float_def)

lemma convert_to_typed_data_iff:
  "convert_to_typed_data d = Inr td \<longleftrightarrow> converts d \<and> td = typed_of d"
  unfolding convert_to_typed_data_def map_err_Inr_iff
  by (simp add: list_all2_Cons1 typed_entry_iff converts_def typed_of_def text_fields_def
      int_fields_def float_fields_def acc_tokens_def acc_floats_def comp_def)
     (auto)

section \<open>What the loop over the fields collects\<close>

lemma typed_of_lookup:
  "map_of (typed_of d) ''msisdn'' = Some (PyStr (field_text d ''msisdn''))"
  "map_of (typed_of d) ''iso6346'' = Some (PyStr (field_text d ''iso6346''))"
  "map_of (typed_of d) ''time'' = Some (PyStr (field_text d ''time''))"
  "map_of (typed_of d) ''cgi'' = Some (PyStr (field_text d ''cgi''))"
  "map_of (typed_of d) ''door'' = Some (PyStr (field_text d ''door''))"
  "map_of (typed_of d) ''rssi'' = Some (PyInt (field_int d ''rssi''))"
  "map_of (typed_of d) ''ble-m'' = Some (PyInt (field_int d ''ble-m''))"
  "map_of (typed_of d) ''bat-soc'' = Some (PyInt (field_int d ''bat-soc''))"
  "map_of (typed_of d) ''gnss'' = Some (PyInt (field_int d ''gnss''))"
  "map_of (typed_of d) ''nsat'' = Some (PyInt (field_int d ''nsat''))"
  "map_of (typed_of d) ''temperature'' = Some (PyFloat (field_float d ''temperature''))"
  "map_of (typed_of d) ''humidity'' = Some (PyFloat (field_float d ''humidity''))"
  "map_of (typed_of d) ''pressure'' = Some (PyFloat (field_float d ''pressure''))"
  "map_of (typed_of d) ''latitude'' = Some (PyFloat (field_float d ''latitude''))"
  "map_of (typed_of d) ''longitude'' = Some (PyFloat (field_float d ''longitude''))"
  "map_of (typed_of d) ''altitude'' = Some (PyFloat (field_float d ''altitude''))"
  "map_of (typed_of d) ''speed'' = Some (PyFloat (field_float d ''speed''))"
  "map_of (typed_of d) ''heading'' = Some (PyFloat (field_float d ''heading''))"
  "map_of (typed_of d) ''hdop'' = Some (PyFloat (field_float d ''hdop''))"
  "map_of (typed_of d) ''acc'' = Some (PyList (map PyFloat (acc_floats d)))"
  by (simp_all add: typed_of_def text_fields_def int_fields_def float_fields_def)

lemma add_field_typed_of:
  "add_field (typed_of d) st ''msisdn'' =
     Inr (st\<lparr>format_parts := format_parts st @ [Fmt_H],
              vals := vals st @ [PyInt (int (text_length d ''msisdn''))],
              string_data := string_data st @ [encode_utf8 (field_text d ''msisdn'')]\<rparr>)"
  "add_field (typed_of d) st ''iso6346'' =
     Inr (st\<lparr>format_parts := format_parts st @ [Fmt_H],
              vals := vals st @ [PyInt (int (text_length d ''iso6346''))],
              string_data := string_data st @ [encode_utf8 (field_text d ''iso6346'')]\<rparr>)"
  "add_field (typed_of d) st ''time'' =
     Inr (st\<lparr>format_parts := format_parts st @ [Fmt_H],
              vals := vals st @ [PyInt (int (text_length d ''time''))],
              string_data := string_data st @ [encode_utf8 (field_text d ''time'')]\<rparr>)"
  "add_field (typed_of d) st ''cgi'' =
     Inr (st\<lparr>format_parts := format_parts st @ [Fmt_H],
              vals := vals st @ [PyInt (int (text_length d ''cgi''))],
              string_data := string_data st @ [encode_utf8 (field_text d ''cgi'')]\<rparr>)"
  "add_field (typed_of d) st ''door'' =
     Inr (st\<lparr>format_parts := format_parts st @ [Fmt_H],
              vals := vals st @ [PyInt (int (text_length d ''door''))],
              string_data := string_data st @ [encode_utf8 (field_text d ''door'')]\<rparr>)"
  "add_field (typed_of d) st ''rssi'' =
     Inr (st\<lparr>format_parts := format_parts st @ [Fmt_B],
              vals := vals st @ [PyInt (field_int d ''rssi'')]\<rparr>)"
  "add_field (typed_of d) st ''ble-m'' =
     Inr (st\<lparr>format_parts := format_parts st @ [Fmt_B],
              vals := vals st @ [PyInt (field_int d ''ble-m'')]\<rparr>)"
  "add_field (typed_of d) st ''bat-soc'' =
     Inr (st\<lparr>format_parts := format_parts st @ [Fmt_B],
              vals := vals st @ [PyInt (field_int d ''bat-soc'')]\<rparr>)"
  "add_field (typed_of d) st ''gnss'' =
     Inr (st\<lparr>format_parts := format_parts st @ [Fmt_B],
              vals := vals st @ [PyInt (field_int d ''gnss'')]\<rparr>)"
  "add_field (typed_of d) st ''nsat'' =
     Inr (st\<lparr>format_parts := format_parts st @ [Fmt_B],
              vals := vals st @ [PyInt (field_int d ''nsat'')]\<rparr>)"
  "add_field (typed_of d) st ''temperature'' =
     Inr (st\<lparr>format_parts := format_parts st @ [Fmt_f],
              vals := vals st @ [PyFloat (field_float d ''temperature'')]\<rparr>)"
  "add_field (typed_of d) st ''humidity'' =
     Inr (st\<lparr>format_parts := format_parts st @ [Fmt_f],
              vals := vals st @ [PyFloat (field_float d ''humidity'')]\<rparr>)"
  "add_field (typed_of d) st ''pressure'' =
     Inr (st\<lparr>format_parts := format_parts st @ [Fmt_f],
              vals := vals st @ [PyFloat (field_float d ''pressure'')]\<rparr>)"
  "add_field (typed_of d) st ''latitude'' =
     Inr (st\<lparr>format_parts := format_parts st @ [Fmt_f],
              vals := vals st @ [PyFloat (field_float d ''latitude'')]\<rparr>)"
  "add_field (typed_of d) st ''longitude'' =
     Inr (st\<lparr>format_parts := format_parts st @ [Fmt_f],
              vals := vals st @ [PyFloat (field_float d ''longitude'')]\<rparr>)"
  "add_field (typed_of d) st ''altitude'' =
     Inr (st\<lparr>format_parts := format_parts st @ [Fmt_f],
              vals := vals st @ [PyFloat (field_float d ''altitude'')]\<rparr>)"
  "add_field (typed_of d) st ''speed'' =
     Inr (st\<lparr>format_parts := format_parts st @ [Fmt_f],
              vals := vals st @ [PyFloat (field_float d ''speed'')]\<rparr>)"
  "add_field (typed_of d) st ''heading'' =
     Inr (st\<lparr>format_parts := format_parts st @ [Fmt_f],
              vals := vals st @ [PyFloat (field_float d ''heading'')]\<rparr>)"
  "add_field (typed_of d) st ''hdop'' =
     Inr (st\<lparr>format_parts := format_parts st @ [Fmt_f],
              vals := vals st @ [PyFloat (field_float d ''hdop'')]\<rparr>)"
  "add_field (typed_of d) st ''acc'' =
     Inr (st\<lparr>format_parts := format_parts st @ [Fmt_f, Fmt_f, Fmt_f],
              vals := vals st @ take 3 (map PyFloat (acc_floats d))\<rparr>)"
  by (simp_all add: add_field_def typed_getitem_def typed_of_lookup text_length_def)

lemma add_fields_typed_of:
  "add_fields (typed_of d) \<lparr>format_parts = [], vals = [], string_data = []\<rparr> field_order
     = Inr \<lparr>format_parts = struct_format, vals = struct_values d,
            string_data = map (\<lambda>k. encode_utf8 (field_text d k)) text_fields\<rparr>"
  by (simp add: field_order_def add_field_typed_of struct_format_def struct_values_def
      text_fields_def)

section \<open>The fixed-width block\<close>

lemma pack_item_Inr_iff:
  "pack_item single Fmt_H (PyInt n) = Inr b \<longleftrightarrow> 0 \<le> n \<and> n \<le> 65535 \<and> b = be_bytes 2 (nat n)"
  "pack_item single Fmt_B (PyInt n) = Inr b \<longleftrightarrow> 0 \<le> n \<and> n \<le> 255 \<and> b = [word_of_int n]"
  "pack_item single Fmt_f (PyFloat x) = Inr b \<longleftrightarrow> single x \<noteq> None \<and> b = float32 single x"
  by (auto simp: pack_item_def float32_def split: option.splits)

lemma struct_pack_items_Cons_iff:
  "struct_pack_items single (c # cs) (v # vs) = Inr bs \<longleftrightarrow>
     (\<exists>b bs'. pack_item single c v = Inr b \<and> struct_pack_items single cs vs = Inr bs'
        \<and> bs = b @ bs')"
  by (auto simp: bind_err_Inr_iff)

lemma take_3: "3 \<le> length xs \<Longrightarrow> take 3 xs = [xs ! 0, xs ! 1, xs ! 2]"
  by (cases xs; cases "tl xs"; cases "tl (tl xs)") (auto simp: numeral_3_eq_3)

lemma foldl_append_concat: "foldl (\<lambda>a b. a @ b) a bs = a @ concat bs"
  by (induction bs arbitrary: a) auto

lemma length_struct_values:
  "length (struct_values d) = 19 + min 3 (length (acc_tokens d))"
  by (simp add: struct_values_def acc_floats_def min_def)

lemma length_struct_format: "length struct_format = 22"
  by (simp add: struct_format_def)

lemma struct_pack_short:
  assumes "length (acc_tokens d) < 3"
  shows "struct_pack single struct_format (struct_values d) = Inl (StructError WrongCount)"
  using assms by (simp add: struct_pack_def length_struct_values length_struct_format)

lemma struct_pack_values_iff:
  assumes "3 \<le> length (acc_tokens d)"
  shows "struct_pack single struct_format (struct_values d) = Inr b \<longleftrightarrow>
           list_all (\<lambda>k. text_length d k \<le> 65535) text_fields
         \<and> list_all (\<lambda>k. 0 \<le> field_int d k \<and> field_int d k \<le> 255) int_fields
         \<and> list_all (\<lambda>x. single x \<noteq> None) (take 3 (acc_floats d))
         \<and> list_all (\<lambda>k. single (field_float d k) \<noteq> None) float_fields
         \<and> b = fixed_width_block single d"
proof -
  have len: "3 \<le> length (map PyFloat (acc_floats d))" "3 \<le> length (acc_floats d)"
    using assms by (simp_all add: acc_floats_def)
  have t: "take 3 (map PyFloat (acc_floats d))
             = [PyFloat (acc_floats d ! 0), PyFloat (acc_floats d ! 1), PyFloat (acc_floats d ! 2)]"
    by (simp add: take_map take_3 [OF len(2)])
  have l: "length (struct_values d) = length struct_format"
    using assms by (simp add: length_struct_values length_struct_format)
  show ?thesis
    unfolding struct_pack_def
    apply (simp only: l if_False simp_thms)
    apply (simp add: struct_values_def t struct_format_def struct_pack_items_Cons_iff
        pack_item_Inr_iff text_fields_def int_fields_def float_fields_def take_3 [OF len(2)]
        fixed_width_block_def text_header_def int_byte_def
        del: struct_pack_items.simps(3))
    apply auto
    done
qed

lemma struct_buffer_iff:
  "struct_buffer single d = Inr buf \<longleftrightarrow>
     in_range single d \<and> buf = fixed_width_block single d @ text_bytes d"
proof (cases "converts d")
  case False
  then show ?thesis
    by (simp add: struct_buffer_def bind_err_Inr_iff convert_to_typed_data_iff in_range_def)
next
  case True
  then have c: "convert_to_typed_data d = Inr (typed_of d)"
    by (simp add: convert_to_typed_data_iff)
  show ?thesis
  proof (cases "3 \<le> length (acc_tokens d)")
    case False
    then have "struct_pack single struct_format (struct_values d) = Inl (StructError WrongCount)"
      by (simp add: struct_pack_short)
    then show ?thesis
      using False by (simp add: struct_buffer_def c add_fields_typed_of in_range_def)
  next
    case three: True
    show ?thesis
      using True three
      by (auto simp: struct_buffer_def c add_fields_typed_of bind_err_Inr_iff
          struct_pack_values_iff [OF three] in_range_def foldl_append_concat text_bytes_def)
  qed
qed

lemma struct_zlib_compress_iff:
  "struct_zlib_compress single zlib_compress d = Inr out \<longleftrightarrow>
     in_range single d \<and> out = zlib_compress 9 (fixed_width_block single d @ text_bytes d)"
  by (auto simp: struct_zlib_compress_def bind_err_Inr_iff struct_buffer_iff)

lemma length_word_be32: "length (word_be32 w) = 4"
  by (simp add: word_be32_def)

lemma length_fixed_width_block:
  assumes "3 \<le> length (acc_tokens d)"
  shows "length (fixed_width_block single d) = 63"
proof -
  have "3 \<le> length (acc_floats d)"
    using assms by (simp add: acc_floats_def)
  then show ?thesis
    by (simp add: fixed_width_block_def text_header_def int_byte_def float32_def
        length_word_be32 length_be_bytes take_3)
qed

section \<open>The layout of the Compact Struct buffer\<close>

lemma test_data_fields:
  "field_text generate_test_data ''msisdn'' = ''393600504920''"
  "field_text generate_test_data ''iso6346'' = ''LMCU0954822''"
  "field_text generate_test_data ''time'' = ''300725 221117.8''"
  "field_text generate_test_data ''cgi'' = ''999-01-1-31D41''"
  "field_text generate_test_data ''door'' = ''D''"
  "field_int generate_test_data ''rssi'' = 21"
  "field_int generate_test_data ''ble-m'' = 1"
  "field_int generate_test_data ''bat-soc'' = 93"
  "field_int generate_test_data ''gnss'' = 1"
  "field_int generate_test_data ''nsat'' = 11"
  "acc_tokens generate_test_data = [''-974.0700'', ''-25.1270'', ''-45.6744'']"
  by (simp_all add: field_text_def field_int_def acc_tokens_def test_data_lookup test_data_ints
      test_data_acc_tokens)

lemma converts_test_data: "converts generate_test_data"
  by (simp add: converts_def text_fields_def int_fields_def float_fields_def test_data_fields
      field_text_def test_data_lookup test_data_ints test_data_floats)

lemma in_range_test_data: "in_range (\<lambda>x. Some 0) generate_test_data"
  by (simp add: in_range_def converts_test_data text_fields_def int_fields_def
      float_fields_def test_data_fields text_length_def list_all_iff)



section \<open>The small integers\<close>

lemma map_err_Inl: "map_err f xs = Inl e \<Longrightarrow> \<exists>x\<in>set xs. f x = Inl e"
proof (induction xs)
  case Nil
  then show ?case by simp
next
  case (Cons x xs)
  show ?case
  proof (cases "f x")
    case (Inl a)
    then show ?thesis using Cons.prems by simp
  next
    case (Inr y)
    then have "map_err f xs = Inl e"
      using Cons.prems by (cases "map_err f xs") simp_all
    then show ?thesis using Cons.IH by auto
  qed
qed

lemma typed_entry_Inl:
  assumes "typed_entry d x = Inl e"
  shows "e = ValueError \<or> (\<exists>k. e = KeyError k)"
proof -
  obtain k c where x: "x = (k, c)" by (cases x)
  show ?thesis
  proof (cases "map_of d k")
    case None
    then show ?thesis using assms by (auto simp: x typed_entry_def getitem_def)
  next
    case (Some s)
    show ?thesis
    proof (cases c)
      case Keep
      then show ?thesis using assms Some by (simp add: x typed_entry_def getitem_def)
    next
      case ToInt
      then show ?thesis
        using assms Some
        by (simp add: x typed_entry_def getitem_def to_int_def split: option.splits)
    next
      case ToFloat
      then show ?thesis
        using assms Some
        by (simp add: x typed_entry_def getitem_def to_float_def split: option.splits)
    next
      case ToFloats
      then have "map_err to_float (py_split s) = Inl e"
        using assms Some
        by (cases "map_err to_float (py_split s)")
           (simp_all add: x typed_entry_def getitem_def)
      then obtain t where "to_float t = Inl e"
        using map_err_Inl by blast
      then show ?thesis by (simp add: to_float_def split: option.splits)
    qed
  qed
qed

lemma convert_to_typed_data_Inl:
  assumes "convert_to_typed_data d = Inl e"
  shows "e = ValueError \<or> (\<exists>k. e = KeyError k)"
proof -
  obtain x where "typed_entry d x = Inl e"
    using assms map_err_Inl unfolding convert_to_typed_data_def by blast
  then show ?thesis by (rule typed_entry_Inl)
qed

lemma struct_pack_items_not_ubyte:
  assumes "list_all2 (\<lambda>c v. pack_item single c v \<noteq> Inl (StructError UByteRange)) cs vs"
  shows "struct_pack_items single cs vs \<noteq> Inl (StructError UByteRange)"
  using assms
proof (induction rule: list_all2_induct)
  case Nil
  show ?case by simp
next
  case (Cons c cs v vs)
  show ?case
  proof (cases "pack_item single c v")
    case (Inl a)
    then show ?thesis using Cons by simp
  next
    case (Inr b)
    then show ?thesis
      using Cons by (cases "struct_pack_items single cs vs") simp_all
  qed
qed

lemma pack_item_not_ubyte:
  "pack_item single Fmt_H v \<noteq> Inl (StructError UByteRange)"
  "pack_item single Fmt_f v \<noteq> Inl (StructError UByteRange)"
  "0 \<le> n \<Longrightarrow> n \<le> 255 \<Longrightarrow> pack_item single Fmt_B (PyInt n) \<noteq> Inl (StructError UByteRange)"
  by (auto simp: pack_item_def split: pyval.splits option.splits)

lemma byte_field_iff:
  "byte_field d k \<longleftrightarrow>
     map_of d k \<noteq> None \<and> py_int (field_text d k) \<noteq> None
     \<and> 0 \<le> field_int d k \<and> field_int d k \<le> 255"
  by (auto simp: byte_field_def field_text_def field_int_def split: option.splits)

lemma outside_byte_range_iff:
  "outside_byte_range d k \<longleftrightarrow>
     map_of d k \<noteq> None \<and> py_int (field_text d k) \<noteq> None
     \<and> (field_int d k < 0 \<or> 255 < field_int d k)"
  by (auto simp: outside_byte_range_def field_text_def field_int_def split: option.splits)

lemma in_range_byte_fields:
  assumes "in_range single d"
  shows "list_all (byte_field d) int_fields"
  using assms
  by (simp add: in_range_def converts_def byte_field_iff int_fields_def text_fields_def)

lemma outside_not_in_range:
  assumes "k \<in> set int_fields" and "outside_byte_range d k"
  shows "\<not> in_range single d"
  using assms
  by (auto simp: in_range_def outside_byte_range_iff int_fields_def)

lemma struct_pack_not_ubyte:
  assumes "list_all (\<lambda>k. 0 \<le> field_int d k \<and> field_int d k \<le> 255) int_fields"
  shows "struct_pack single struct_format (struct_values d) \<noteq> Inl (StructError UByteRange)"
proof (cases "3 \<le> length (acc_tokens d)")
  case False
  then show ?thesis by (simp add: struct_pack_short)
next
  case True
  then have len: "3 \<le> length (acc_floats d)"
    by (simp add: acc_floats_def)
  have l: "length (struct_values d) = length struct_format"
    using True by (simp add: length_struct_values length_struct_format)
  have "list_all2 (\<lambda>c v. pack_item single c v \<noteq> Inl (StructError UByteRange))
          struct_format (struct_values d)"
    using assms
    by (simp add: struct_format_def struct_values_def take_map take_3 [OF len]
        pack_item_not_ubyte int_fields_def)
  then show ?thesis
    unfolding struct_pack_def
    by (simp only: l if_False simp_thms struct_pack_items_not_ubyte)
qed

lemma struct_buffer_not_ubyte:
  assumes "list_all (byte_field d) int_fields"
  shows "struct_buffer single d \<noteq> Inl (StructError UByteRange)"
proof (cases "convert_to_typed_data d")
  case (Inl e)
  then have "struct_buffer single d = Inl e"
    by (simp add: struct_buffer_def)
  then show ?thesis
    using convert_to_typed_data_Inl [OF Inl] by auto
next
  case (Inr td)
  then have td: "td = typed_of d"
    by (simp add: convert_to_typed_data_iff)
  have r: "list_all (\<lambda>k. 0 \<le> field_int d k \<and> field_int d k \<le> 255) int_fields"
    using assms by (simp add: byte_field_iff int_fields_def)
  show ?thesis
    using struct_pack_not_ubyte [OF r, of single]
    by (cases "struct_pack single struct_format (struct_values d)")
       (simp_all add: struct_buffer_def Inr td add_fields_typed_of)
qed

lemma struct_pack_fails:
  assumes "k \<in> set int_fields" and "outside_byte_range d k"
  shows "\<exists>e. struct_pack single struct_format (struct_values d) = Inl e"
proof (cases "3 \<le> length (acc_tokens d)")
  case False
  then show ?thesis by (simp add: struct_pack_short)
next
  case True
  have "\<not> list_all (\<lambda>k. 0 \<le> field_int d k \<and> field_int d k \<le> 255) int_fields"
    using assms unfolding outside_byte_range_iff list_all_iff
    by (intro notI) (drule bspec [where x = k], auto)
  then have "\<And>b. struct_pack single struct_format (struct_values d) \<noteq> Inr b"
    by (simp add: struct_pack_values_iff [OF True])
  then show ?thesis
    by (cases "struct_pack single struct_format (struct_values d)") auto
qed


lemma bind_err_weak_cong: "m = m' \<Longrightarrow> bind_err m f = bind_err m' f"
  by simp

lemma map_of_setitem: "map_of (setitem d k v) k' = (if k' = k then Some v else map_of d k')"
  by (induction d) auto

lemma other_literals:
  "py_int ''-5'' = Some (- 5)"
  "py_split ''-993.9,-27.1,-52.0'' = [''-993.9,-27.1,-52.0'']"
  "py_float ''-993.9,-27.1,-52.0'' = None"
  "py_split ''1 2 3 4'' = [''1'', ''2'', ''3'', ''4'']"
  "py_float ''1'' = Some (Finite False 1)"
  "py_float ''2'' = Some (Finite False 2)"
  "py_float ''3'' = Some (Finite False 3)"
  "py_float ''4'' = Some (Finite False 4)"
  by code_simp+

lemma converts_setitem_rssi: "converts (setitem generate_test_data ''rssi'' ''-5'')"
  by (simp add: converts_def text_fields_def int_fields_def float_fields_def map_of_setitem
      acc_tokens_def other_literals
      field_text_def test_data_lookup test_data_ints test_data_floats test_data_acc_tokens)

lemma negative_rssi_is_a_struct_error:
  "struct_zlib_compress single zlib_compress (setitem generate_test_data ''rssi'' ''-5'')
     = Inl (StructError UByteRange)"
proof -
  let ?d = "setitem generate_test_data ''rssi'' ''-5''"
  have c: "convert_to_typed_data ?d = Inr (typed_of ?d)"
    using converts_setitem_rssi by (simp add: convert_to_typed_data_iff)
  have three: "3 \<le> length (acc_floats ?d)"
    by (simp add: acc_floats_def acc_tokens_def field_text_def map_of_setitem
        test_data_lookup test_data_acc_tokens)
  have l: "length (struct_values ?d) = length struct_format"
    using three by (simp add: length_struct_values length_struct_format acc_floats_def)
  have r: "field_int ?d ''rssi'' = - 5"
    by (simp add: field_int_def field_text_def map_of_setitem other_literals)
  have t: "text_length ?d ''msisdn'' = 12" "text_length ?d ''iso6346'' = 11"
    "text_length ?d ''time'' = 15"
    by (simp_all add: text_length_def field_text_def map_of_setitem test_data_lookup)
  have "struct_pack single struct_format (struct_values ?d) = Inl (StructError UByteRange)"
    unfolding struct_pack_def
    apply (simp only: l if_False simp_thms)
    apply (simp add: struct_format_def struct_values_def r t pack_item_def
        cong: bind_err_weak_cong)
    done
  then show ?thesis
    by (simp add: struct_zlib_compress_def struct_buffer_def c add_fields_typed_of)
qed


section \<open>The accelerometer string\<close>

lemma acc_bytes_position:
  assumes "3 \<le> length (acc_tokens d)"
  shows "take 12 (drop 11 (fixed_width_block single d @ rest))
           = concat (map (float32 single) (take 3 (acc_floats d)))"
proof -
  have len: "3 \<le> length (acc_floats d)"
    using assms by (simp add: acc_floats_def)
  show ?thesis
    by (simp add: fixed_width_block_def text_header_def int_byte_def float32_def word_be32_def
        be_bytes_2 take_3 [OF len])
qed

lemma not_in_range_fails:
  assumes "\<not> in_range single d"
  shows "\<exists>e. struct_zlib_compress single zlib_compress d = Inl e"
proof -
  have "\<And>out. struct_zlib_compress single zlib_compress d \<noteq> Inr out"
    using assms by (simp add: struct_zlib_compress_iff)
  then show ?thesis
    by (cases "struct_zlib_compress single zlib_compress d") auto
qed


lemma map_err_first_error:
  assumes "list_all (\<lambda>x. \<exists>y. f x = Inr y) xs" and "f x = Inl e"
  shows "map_err f (xs @ x # zs) = Inl e"
  using assms by (induction xs) auto

lemma convert_comma_separated_acc:
  "convert_to_typed_data (setitem generate_test_data ''acc'' ''-993.9,-27.1,-52.0'')
     = Inl ValueError"
proof -
  let ?d = "setitem generate_test_data ''acc'' ''-993.9,-27.1,-52.0''"
  let ?xs = "[(''msisdn'', Keep), (''iso6346'', Keep), (''time'', Keep), (''cgi'', Keep),
        (''door'', Keep),
        (''rssi'', ToInt), (''ble-m'', ToInt), (''bat-soc'', ToInt), (''gnss'', ToInt),
        (''nsat'', ToInt),
        (''temperature'', ToFloat), (''humidity'', ToFloat), (''pressure'', ToFloat),
        (''latitude'', ToFloat), (''longitude'', ToFloat), (''altitude'', ToFloat),
        (''speed'', ToFloat), (''heading'', ToFloat), (''hdop'', ToFloat)]"
  have ok: "list_all (\<lambda>x. \<exists>y. typed_entry ?d x = Inr y) ?xs"
    by (simp add: typed_entry_iff map_of_setitem field_text_def test_data_lookup
        test_data_ints test_data_floats)
  have bad: "typed_entry ?d (''acc'', ToFloats) = Inl ValueError"
    by (simp add: typed_entry_def getitem_def map_of_setitem other_literals to_float_def)
  have "map_err (typed_entry ?d) (?xs @ (''acc'', ToFloats) # []) = Inl ValueError"
    using ok bad by (rule map_err_first_error)
  then show ?thesis
    by (simp add: convert_to_typed_data_def)
qed

lemma four_tokens_in_range:
  "in_range (\<lambda>x. Some 0) (setitem generate_test_data ''acc'' ''1 2 3 4'')"
  by (simp add: in_range_def converts_def text_fields_def int_fields_def float_fields_def
      map_of_setitem acc_tokens_def acc_floats_def other_literals text_length_def field_int_def
      field_text_def test_data_lookup test_data_ints test_data_floats list_all_iff)



section \<open>The accelerometer string of the positional-schema encoder\<close>

lemma is_digit_not:
  assumes "is_digit c"
  shows "c \<noteq> CHR ''.''" "c \<noteq> CHR ''-''" "c \<noteq> CHR ''+''" "c \<noteq> CHR ''_''" "\<not> is_space c"
    "lower c = c"
  using assms by (auto simp: is_digit_def is_space_def lower_def)

lemma not_digit: "\<not> is_digit CHR ''.''" "\<not> is_digit CHR ''-''" "\<not> is_digit CHR ''+''"
  by (simp_all add: is_digit_def)

lemma not_space: "\<not> is_space CHR ''.''" "\<not> is_space CHR ''-''" "\<not> is_space CHR ''+''"
  by (simp_all add: is_space_def)

lemma more_digits_total:
  "list_all is_digit cs \<Longrightarrow> \<exists>v' n'. more_digits (v, n) cs = Some (v', n')"
proof (induction cs arbitrary: v n)
  case Nil
  show ?case by simp
next
  case (Cons c cs)
  then show ?case by simp
qed

lemma digitpart_total:
  assumes "ds \<noteq> []" and "list_all is_digit ds"
  shows "\<exists>v n. digitpart ds = Some (v, n)"
proof -
  obtain c cs where ds: "ds = c # cs" using assms(1) by (cases ds) auto
  then have "is_digit c" "list_all is_digit cs" using assms(2) by simp_all
  then show ?thesis
    using more_digits_total [of cs "digit_val c" 1] by (simp add: digitpart_def ds)
qed

lemma takeWhile_all: "list_all P xs \<Longrightarrow> takeWhile P xs = xs"
  by (induction xs) auto

lemma dropWhile_all: "list_all P xs \<Longrightarrow> dropWhile P xs = []"
  by (induction xs) auto

lemma list_all_takeWhile: "list_all P (takeWhile P xs)"
  by (induction xs) auto

lemma py_strip_id:
  assumes "s \<noteq> []" and "\<not> is_space (hd s)" and "\<not> is_space (last s)"
  shows "py_strip s = s"
proof -
  have a: "dropWhile is_space s = s"
    using assms(1,2) by (cases s) auto
  have "rev s \<noteq> []" "\<not> is_space (hd (rev s))"
    using assms(1,3) by (simp_all add: hd_rev)
  then have "dropWhile is_space (rev s) = rev s"
    by (cases "rev s") auto
  then show ?thesis
    by (simp add: py_strip_def a)
qed

text \<open>A number without sign: digits, then possibly a point and digits.\<close>

lemma mantissa_of_number:
  assumes ds: "ds \<noteq> []" "list_all is_digit ds"
    and tail: "tail = [] \<or> (\<exists>fs. tail = CHR ''.'' # fs \<and> fs \<noteq> [] \<and> list_all is_digit fs)"
  shows "\<exists>q. mantissa (ds @ tail) = Some q"
proof -
  have nd: "list_all (\<lambda>c. c \<noteq> CHR ''.'') ds"
    using ds(2) by (induction ds) (auto simp: is_digit_not)
  obtain v n where v: "digitpart ds = Some (v, n)"
    using digitpart_total [OF ds] by blast
  from tail show ?thesis
  proof
    assume "tail = []"
    then show ?thesis
      using nd v by (simp add: mantissa_def takeWhile_all dropWhile_all)
  next
    assume "\<exists>fs. tail = CHR ''.'' # fs \<and> fs \<noteq> [] \<and> list_all is_digit fs"
    then obtain fs where fs: "tail = CHR ''.'' # fs" "fs \<noteq> []" "list_all is_digit fs"
      by blast
    obtain w m where w: "digitpart fs = Some (w, m)"
      using digitpart_total [OF fs(2,3)] by blast
    have t: "takeWhile (\<lambda>c. c \<noteq> CHR ''.'') (ds @ CHR ''.'' # fs) = ds"
      using nd by (simp add: takeWhile_append2 list_all_iff)
    have d: "dropWhile (\<lambda>c. c \<noteq> CHR ''.'') (ds @ CHR ''.'' # fs) = CHR ''.'' # fs"
      using nd by (simp add: dropWhile_append2 list_all_iff)
    show ?thesis
      using ds(1) fs(2) v w unfolding fs(1) mantissa_def t d by simp
  qed
qed

lemma py_float_of_number:
  assumes sign: "sign = [] \<or> sign = ''-'' \<or> sign = ''+''"
    and ds: "ds \<noteq> []" "list_all is_digit ds"
    and tail: "tail = [] \<or> (\<exists>fs. tail = CHR ''.'' # fs \<and> fs \<noteq> [] \<and> list_all is_digit fs)"
  shows "\<exists>x. py_float (sign @ ds @ tail) = Some x"
proof -
  let ?t = "sign @ ds @ tail"
  let ?body = "ds @ tail"
  obtain c cs where c: "ds = c # cs" using ds(1) by (cases ds) auto
  then have dc: "is_digit c" using ds(2) by simp
  have ne: "?t \<noteq> []" using ds(1) by simp
  have h: "\<not> is_space (hd ?t)"
    using sign dc by (auto simp: c is_digit_not not_space)
  have lastd: "\<not> is_space (last ds)"
    using ds by (metis is_digit_not(5) last_in_set list_all_iff)
  have l: "\<not> is_space (last ?t)"
  proof -
    from tail show ?thesis
    proof
      assume "tail = []"
      then show ?thesis using lastd ds(1) by simp
    next
      assume "\<exists>fs. tail = CHR ''.'' # fs \<and> fs \<noteq> [] \<and> list_all is_digit fs"
      then obtain fs where fs: "tail = CHR ''.'' # fs" "fs \<noteq> []" "list_all is_digit fs"
        by blast
      then have "\<not> is_space (last fs)"
        by (metis is_digit_not(5) last_in_set list_all_iff)
      then show ?thesis using fs by simp
    qed
  qed
  have strip: "py_strip ?t = ?t"
    by (rule py_strip_id [OF ne h l])
  have sg: "\<exists>neg. signed ?t = (neg, ?body)"
    using sign dc by (auto simp: signed_def c is_digit_not)
  then obtain neg where neg: "signed ?t = (neg, ?body)" by blast
  have low: "hd (map lower ?body) = c"
    using dc by (simp add: c is_digit_not)
  have nl: "map lower ?body \<noteq> ''inf''" "map lower ?body \<noteq> ''infinity''"
    "map lower ?body \<noteq> ''nan''"
    using low dc by (auto simp: is_digit_def)
  have am: "list_all (\<lambda>c. is_digit c \<or> c = CHR ''_'' \<or> c = CHR ''.'') ?body"
    using ds(2) tail by (auto simp: list_all_iff)
  obtain q where q: "mantissa ?body = Some q"
    using mantissa_of_number [OF ds tail] by blast
  show ?thesis
    unfolding py_float_def strip neg
    using nl q by (simp add: Let_def takeWhile_all [OF am] dropWhile_all [OF am] exponent_def)
qed

lemma number_token_shape:
  assumes "number_token t"
  shows "\<exists>sign ds tail. t = sign @ ds @ tail
           \<and> (sign = [] \<or> sign = ''-'' \<or> sign = ''+'')
           \<and> ds \<noteq> [] \<and> list_all is_digit ds
           \<and> (tail = [] \<or> (\<exists>fs. tail = CHR ''.'' # fs \<and> fs \<noteq> [] \<and> list_all is_digit fs))"
proof -
  define body where "body = (case t of
                    [] \<Rightarrow> []
                  | c # cs \<Rightarrow> if c = CHR ''-'' \<or> c = CHR ''+'' then cs else t)"
  define sign where "sign = (case t of
                    [] \<Rightarrow> []
                  | c # cs \<Rightarrow> if c = CHR ''-'' \<or> c = CHR ''+'' then [c] else [])"
  have t: "t = sign @ body"
    by (cases t) (auto simp: sign_def body_def)
  have s: "sign = [] \<or> sign = ''-'' \<or> sign = ''+''"
    by (cases t) (auto simp: sign_def)
  have b: "body = takeWhile is_digit body @ dropWhile is_digit body"
    by simp
  have n: "takeWhile is_digit body \<noteq> []"
    and r: "(case dropWhile is_digit body of
            [] \<Rightarrow> True
          | dot # fs \<Rightarrow> dot = CHR ''.'' \<and> fs \<noteq> [] \<and> list_all is_digit fs)"
    using assms unfolding number_token_def body_def [symmetric] by (simp_all add: Let_def)
  have tl: "dropWhile is_digit body = []
      \<or> (\<exists>fs. dropWhile is_digit body = CHR ''.'' # fs \<and> fs \<noteq> [] \<and> list_all is_digit fs)"
    using r by (cases "dropWhile is_digit body") auto
  show ?thesis
    using t s b n tl list_all_takeWhile [of is_digit body] by metis
qed

lemma number_token_float:
  assumes "number_token t"
  shows "py_float t \<noteq> None"
proof -
  obtain sign ds tail where "t = sign @ ds @ tail"
    "sign = [] \<or> sign = ''-'' \<or> sign = ''+''" "ds \<noteq> []" "list_all is_digit ds"
    "tail = [] \<or> (\<exists>fs. tail = CHR ''.'' # fs \<and> fs \<noteq> [] \<and> list_all is_digit fs)"
    using number_token_shape [OF assms] by blast
  then show ?thesis
    using py_float_of_number [of sign ds tail] by auto
qed

lemma number_token_intro:
  assumes sign: "sign = [] \<or> sign = ''-'' \<or> sign = ''+''"
    and ds: "ds \<noteq> []" "list_all is_digit ds"
    and tail: "tail = [] \<or> (\<exists>fs. tail = CHR ''.'' # fs \<and> fs \<noteq> [] \<and> list_all is_digit fs)"
  shows "number_token (sign @ ds @ tail)"
proof -
  obtain c cs where c: "ds = c # cs" using ds(1) by (cases ds) auto
  then have dc: "is_digit c" using ds(2) by simp
  have body: "(case sign @ ds @ tail of
                    [] \<Rightarrow> []
                  | c # cs \<Rightarrow> if c = CHR ''-'' \<or> c = CHR ''+'' then cs else sign @ ds @ tail)
              = ds @ tail"
    using sign dc by (auto simp: c is_digit_not)
  have t: "takeWhile is_digit (ds @ tail) = ds"
    using ds(2) tail by (auto simp: takeWhile_append2 list_all_iff not_digit)
  have d: "dropWhile is_digit (ds @ tail) = tail"
    using ds(2) tail by (auto simp: dropWhile_append2 list_all_iff not_digit)
  show ?thesis
    unfolding number_token_def body
    using ds(1) tail by (auto simp: Let_def t d)
qed

lemma findall_numbers_Cons:
  "findall_numbers (c # cs) =
     (let sign = (if c = CHR ''-'' \<or> c = CHR ''+'' then [c] else []);
          body = (if c = CHR ''-'' \<or> c = CHR ''+'' then cs else c # cs);
          ds = takeWhile is_digit body;
          after = dropWhile is_digit body
      in if ds = [] then findall_numbers cs
         else
           (case after of
              dot # fs \<Rightarrow>
                if dot = CHR ''.'' \<and> takeWhile is_digit fs \<noteq> []
                then (sign @ ds @ [dot] @ takeWhile is_digit fs)
                       # findall_numbers (dropWhile is_digit fs)
                else (sign @ ds) # findall_numbers after
            | [] \<Rightarrow> [sign @ ds]))"
  by (simp add: findall_numbers.simps Let_def)

lemma weave_Cons_gap: "weave ((c # g) # gs) ts = c # weave (g # gs) ts"
  by (cases ts) simp_all

text \<open>
  The scan, as an induction principle: a property of a string and its matches that holds
  for the empty string, is kept when the scan moves on by one character that is not a
  digit, and is kept when a number is matched in front.
\<close>

lemma findall_numbers_scan [consumes 0, case_names empty skip match]:
  assumes empty: "P [] []"
    and skip: "\<And>c cs. \<not> is_digit c \<Longrightarrow> P cs (findall_numbers cs)
                 \<Longrightarrow> P (c # cs) (findall_numbers cs)"
    and match: "\<And>sign ds tail rest.
                 sign = [] \<or> sign = ''-'' \<or> sign = ''+'' \<Longrightarrow> ds \<noteq> [] \<Longrightarrow> list_all is_digit ds
                 \<Longrightarrow> tail = [] \<or> (\<exists>fs. tail = CHR ''.'' # fs \<and> fs \<noteq> [] \<and> list_all is_digit fs)
                 \<Longrightarrow> P rest (findall_numbers rest)
                 \<Longrightarrow> P (sign @ ds @ tail @ rest) ((sign @ ds @ tail) # findall_numbers rest)"
  shows "P s (findall_numbers s)"
proof (induction "length s" arbitrary: s rule: less_induct)
  case less
  show ?case
  proof (cases s)
    case Nil
    then show ?thesis using empty by (simp add: findall_numbers.simps)
  next
    case (Cons c cs)
    define sign where "sign = (if c = CHR ''-'' \<or> c = CHR ''+'' then [c] else [])"
    define body where "body = (if c = CHR ''-'' \<or> c = CHR ''+'' then cs else c # cs)"
    define ds where "ds = takeWhile is_digit body"
    define after where "after = dropWhile is_digit body"
    have eq: "findall_numbers s =
        (if ds = [] then findall_numbers cs
         else
           (case after of
              dot # fs \<Rightarrow>
                if dot = CHR ''.'' \<and> takeWhile is_digit fs \<noteq> []
                then (sign @ ds @ [dot] @ takeWhile is_digit fs)
                       # findall_numbers (dropWhile is_digit fs)
                else (sign @ ds) # findall_numbers after
            | [] \<Rightarrow> [sign @ ds]))"
      unfolding Cons findall_numbers_Cons sign_def body_def ds_def after_def Let_def ..
    have s: "s = sign @ body"
      by (simp add: Cons sign_def body_def)
    have b: "body = ds @ after"
      by (simp add: ds_def after_def)
    have sg: "sign = [] \<or> sign = ''-'' \<or> sign = ''+''"
      by (auto simp: sign_def)
    have dd: "list_all is_digit ds"
      unfolding ds_def by (rule list_all_takeWhile)
    have lb: "length body \<le> length s"
      by (simp add: s)
    show ?thesis
    proof (cases "ds = []")
      case True
      have nd: "\<not> is_digit c"
      proof (cases "c = CHR ''-'' \<or> c = CHR ''+''")
        case True
        then show ?thesis by (auto simp: not_digit)
      next
        case False
        then have "body = c # cs" by (simp add: body_def)
        then show ?thesis using \<open>ds = []\<close> by (auto simp: ds_def split: if_splits)
      qed
      have "P cs (findall_numbers cs)"
        by (rule less) (simp add: Cons)
      then have "P (c # cs) (findall_numbers cs)"
        by (rule skip [OF nd])
      then have "P s (findall_numbers cs)"
        by (simp add: Cons)
      then show ?thesis
        unfolding eq using True by simp
    next
      case False
      have la: "length after < length s"
        using False lb b by (cases ds) (auto simp: )
      show ?thesis
      proof (cases after)
        case Nil
        have "P [] (findall_numbers [])"
          using empty by (simp add: findall_numbers.simps)
        then have "P (sign @ ds @ [] @ []) ((sign @ ds @ []) # findall_numbers [])"
          using sg False dd by (intro match) auto
        then have "P s [sign @ ds]"
          by (simp add: s b Nil findall_numbers.simps)
        then show ?thesis
          unfolding eq using False Nil by simp
      next
        case (Cons dot fs)
        show ?thesis
        proof (cases "dot = CHR ''.'' \<and> takeWhile is_digit fs \<noteq> []")
          case True
          have "length (dropWhile is_digit fs) \<le> length fs"
            by (rule length_dropWhile_le)
          then have "length (dropWhile is_digit fs) < length s"
            using la Cons by simp
          then have ih: "P (dropWhile is_digit fs) (findall_numbers (dropWhile is_digit fs))"
            by (rule less)
          have "P (sign @ ds @ (CHR ''.'' # takeWhile is_digit fs) @ dropWhile is_digit fs)
                  ((sign @ ds @ (CHR ''.'' # takeWhile is_digit fs))
                     # findall_numbers (dropWhile is_digit fs))"
            using sg False dd True ih by (intro match) (auto simp: list_all_takeWhile)
          then have "P s ((sign @ ds @ [dot] @ takeWhile is_digit fs)
                       # findall_numbers (dropWhile is_digit fs))"
            using True by (simp add: s b Cons)
          then show ?thesis
            unfolding eq using False True Cons by simp
        next
          case no_fraction: False
          have ih: "P after (findall_numbers after)"
            using la by (rule less)
          have "P (sign @ ds @ [] @ after) ((sign @ ds @ []) # findall_numbers after)"
            using sg False dd ih by (intro match) auto
          then have "P s ((sign @ ds) # findall_numbers after)"
            by (simp add: s b)
          then show ?thesis
            unfolding eq using False no_fraction Cons by auto
        qed
      qed
    qed
  qed
qed

lemma findall_numbers_tokens: "list_all number_token (findall_numbers s)"
proof (induction rule: findall_numbers_scan [where P = "\<lambda>s ts. list_all number_token ts"])
  case empty
  show ?case by simp
next
  case (skip c cs)
  then show ?case by simp
next
  case (match sign ds tail rest)
  then show ?case by (simp add: number_token_intro)
qed

lemma findall_numbers_woven:
  "\<exists>gaps. length gaps = Suc (length (findall_numbers s))
         \<and> s = weave gaps (findall_numbers s)
         \<and> list_all (list_all (\<lambda>c. \<not> is_digit c)) gaps"
proof (induction rule: findall_numbers_scan
    [where P = "\<lambda>s ts. \<exists>gaps. length gaps = Suc (length ts) \<and> s = weave gaps ts
         \<and> list_all (list_all (\<lambda>c. \<not> is_digit c)) gaps"])
  case empty
  have "length [[]] = Suc (length ([] :: string list)) \<and> [] = weave [[]] []
         \<and> list_all (list_all (\<lambda>c. \<not> is_digit c)) [[]]"
    by simp
  then show ?case by blast
next
  case (skip c cs)
  then obtain gaps where g: "length gaps = Suc (length (findall_numbers cs))"
    "cs = weave gaps (findall_numbers cs)" "list_all (list_all (\<lambda>c. \<not> is_digit c)) gaps"
    by blast
  then obtain g gs where gaps: "gaps = g # gs" by (cases gaps) auto
  have "length ((c # g) # gs) = Suc (length (findall_numbers cs))
      \<and> c # cs = weave ((c # g) # gs) (findall_numbers cs)
      \<and> list_all (list_all (\<lambda>c. \<not> is_digit c)) ((c # g) # gs)"
    using g skip(1) by (simp add: gaps weave_Cons_gap)
  then show ?case by blast
next
  case (match sign ds tail rest)
  then obtain gaps where g: "length gaps = Suc (length (findall_numbers rest))"
    "rest = weave gaps (findall_numbers rest)" "list_all (list_all (\<lambda>c. \<not> is_digit c)) gaps"
    by blast
  have "length ([] # gaps) = Suc (length ((sign @ ds @ tail) # findall_numbers rest))
      \<and> sign @ ds @ tail @ rest = weave ([] # gaps) ((sign @ ds @ tail) # findall_numbers rest)
      \<and> list_all (list_all (\<lambda>c. \<not> is_digit c)) ([] # gaps)"
    using g by simp
  then show ?case by blast
qed

lemma map_err_total:
  assumes "list_all (\<lambda>x. f x = Inr (g x)) xs"
  shows "map_err f xs = Inr (map g xs)"
  using assms by (induction xs) auto

lemma parse_acc_closed:
  "parse_acc s =
     (if length (findall_numbers s) = 3
      then Inr (map (\<lambda>t. PyFloat (the (py_float t))) (findall_numbers s))
      else Inl ValueError)"
proof -
  have "list_all (\<lambda>t. to_float t = Inr (PyFloat (the (py_float t)))) (findall_numbers s)"
    using findall_numbers_tokens [of s]
    by (auto simp: list_all_iff to_float_def dest!: number_token_float split: option.splits)
  then show ?thesis
    by (simp add: parse_acc_def Let_def map_err_total)
qed

lemma documented_tokens:
  "findall_numbers ''-993.9 -27.1 -52.0'' = [''-993.9'', ''-27.1'', ''-52.0'']"
  "findall_numbers ''-993.9,-27.1,-52.0'' = [''-993.9'', ''-27.1'', ''-52.0'']"
  "findall_numbers ''-993.9,-27.1 -52.0'' = [''-993.9'', ''-27.1'', ''-52.0'']"
  "findall_numbers ''-993.9-27.1-52.0'' = [''-993.9'', ''-27.1'', ''-52.0'']"
  "findall_numbers ''-993.9 -27.1'' = [''-993.9'', ''-27.1'']"
  by code_simp+

lemma documented_floats:
  "py_float ''-993.9'' = Some (Finite True (9939 / 10))"
  "py_float ''-27.1'' = Some (Finite True (271 / 10))"
  "py_float ''-52.0'' = Some (Finite True 52)"
  by (simp_all add: py_float_def py_strip_def is_space_def signed_def lower_def mantissa_def
      digitpart_def is_digit_def digit_val_def exponent_def)


text \<open>
  An input with letters, a comma and a space between three numbers, one of them with a
  sign and a fraction.
\<close>

lemma mixed_separators:
  "findall_numbers ''a1,b-2.50 c+3'' = [''1'', ''-2.50'', ''+3'']"
  "py_float ''1'' = Some (Finite False 1)"
  "py_float ''-2.50'' = Some (Finite True (5 / 2))"
  "py_float ''+3'' = Some (Finite False 3)"
  by code_simp+


end
